theory Spec2Isabelle
  imports Complex_Main
begin

section \<open>Python numbers\<close>

datatype error = AttributeError | ZeroDivisionError | OverflowError | IndexError | ValueError
  | UnicodeDecodeError

text \<open>
  A float is a double, given here by its value, a rational number. \<open>round_double x\<close> is
  the double nearest to \<open>x\<close>, ties to the even significand: the significand has 53
  bits, and below \<open>2 ^ (- 1022)\<close> the spacing stays \<open>2 ^ (- 1074)\<close>. A double is smaller
  than \<open>2 ^ 1024\<close> in magnitude. \<open>bit_length\<close> is \<open>int.bit_length\<close>, and \<open>ilog2 x\<close> is the
  exponent of the largest power of two that is at most \<open>x\<close>, for positive \<open>x\<close>.
\<close>

definition round_half_even :: "rat \<Rightarrow> int" where
  "round_half_even x =
     (let f = \<lfloor>x\<rfloor>; r = x - of_int f
      in if r < 1 / 2 then f else if 1 / 2 < r then f + 1 else if even f then f else f + 1)"

fun bit_length :: "nat \<Rightarrow> nat" where
  "bit_length n = (if n = 0 then 0 else Suc (bit_length (n div 2)))"

declare bit_length.simps [simp del]

definition ilog2 :: "rat \<Rightarrow> int" where
  "ilog2 x = (if 1 \<le> x then int (bit_length (nat \<lfloor>x\<rfloor>)) - 1
              else - int (bit_length (nat (\<lceil>1 / x\<rceil> - 1))))"

definition round_double :: "rat \<Rightarrow> rat" where
  "round_double x =
     (if x = 0 then 0
      else let q = max (ilog2 \<bar>x\<bar> - 52) (- 1074)
           in of_int (round_half_even (x / 2 powi q)) * 2 powi q)"

text \<open>
  \<open>a / b\<close> on two ints is the correctly rounded quotient; it raises ZeroDivisionError
  for a zero divisor and OverflowError when the result is too large for a float.
  \<open>float(a)\<close> on an int rounds in the same way and raises OverflowError likewise.
\<close>

definition int_truediv :: "int \<Rightarrow> int \<Rightarrow> error + rat" where
  "int_truediv a b =
     (if b = 0 then Inl ZeroDivisionError
      else let v = round_double (of_int a / of_int b)
           in if 2 ^ 1024 \<le> \<bar>v\<bar> then Inl OverflowError else Inr v)"

definition int_to_float :: "int \<Rightarrow> error + rat" where
  "int_to_float a =
     (let v = round_double (of_int a)
      in if 2 ^ 1024 \<le> \<bar>v\<bar> then Inl OverflowError else Inr v)"

text \<open>Python's \<open>int(x)\<close> on a number truncates towards zero.\<close>

definition py_int :: "rat \<Rightarrow> int" where
  "py_int x = (if 0 \<le> x then \<lfloor>x\<rfloor> else \<lceil>x\<rceil>)"

section \<open>csdr.py: the dsp controller\<close>

text \<open>
  Sample rates are Python ints, as \<open>__init__\<close> and \<open>get_audio_rate\<close> have them; the
  fractional ratio and the squelch threshold are floats, given by their values.
  Strings are character lists. An attribute that \<open>__init__\<close> does
  not create (\<open>decimation\<close>, \<open>last_decimation\<close>, \<open>pipe_base_path\<close>,
  \<open>squelch_pipe_file\<close>, \<open>process\<close>) is an option: \<open>None\<close> while the attribute does
  not exist. \<open>secondary_demodulator\<close> and \<open>squelch_pipe\<close> are options because the code
  stores Python's \<open>None\<close> in them. \<open>object_id\<close> is the text of \<open>id(self)\<close>. A process is
  recorded as the command template it was spawned from and whether it is still alive.
\<close>

subsection \<open>Rate profile\<close>

text \<open>
  The loop divides two ints and compares the float with the int \<open>output_rate\<close>, which
  Python does exactly. The loop may run forever (no result), or raise OverflowError.
  In \<open>float(input_rate / decimation) / output_rate\<close> the int \<open>output_rate\<close> is converted to
  a float first; the quotient of a float by a nonzero int's float cannot overflow.
\<close>

partial_function (option) decimation_loop :: "int \<Rightarrow> int \<Rightarrow> int \<Rightarrow> (error + int) option" where
  "decimation_loop input_rate output_rate decimation =
     (case int_truediv input_rate (decimation + 1) of
        Inl e \<Rightarrow> Some (Inl e)
      | Inr v \<Rightarrow>
          if v \<ge> of_int output_rate
          then decimation_loop input_rate output_rate (decimation + 1)
          else Some (Inr decimation))"

definition get_decimation :: "int \<Rightarrow> int \<Rightarrow> (error + int \<times> rat \<times> rat) option" where
  "get_decimation input_rate output_rate =
     (case decimation_loop input_rate output_rate 1 of
        None \<Rightarrow> None
      | Some (Inl e) \<Rightarrow> Some (Inl e)
      | Some (Inr decimation) \<Rightarrow>
          (case int_truediv input_rate decimation of
             Inl e \<Rightarrow> Some (Inl e)
           | Inr v \<Rightarrow>
               (case int_to_float output_rate of
                  Inl e \<Rightarrow> Some (Inl e)
                | Inr out \<Rightarrow>
                    if out = 0 then Some (Inl ZeroDivisionError)
                    else
                      let fraction = round_double (v / out);
                          intermediate_rate = v
                      in Some (Inr (decimation, fraction, intermediate_rate)))))"

subsection \<open>The controller's state\<close>

text \<open>The calls of \<open>calculate_decimation\<close>, \<open>restart\<close>, \<open>stop\<close> and \<open>start\<close> are recorded in
  a history field, so that a call that did not happen can be told from one that left
  every value as it was.\<close>

datatype call = CalculateDecimation | Restart | Stop | Start

text \<open>
  A control pipe file is the list of lines written to it so far;
  \<open>PercentG v\<close> is the line \<^verbatim>\<open>"%g\n" % float(v)\<close>.
\<close>

datatype line = PercentG rat

record dsp =
  samp_rate :: int
  output_rate :: int
  fft_fps :: int
  fft_averages :: int
  running :: bool
  audio_compression :: string
  fft_compression :: string
  demodulator :: string
  csdr_dynamic_bufsize :: bool
  csdr_through :: bool
  squelch_level :: rat
  secondary_demodulator :: "string option"
  modification_lock :: bool
  decimation :: "int option"
  last_decimation :: "rat option"
  temporary_directory :: string
  object_id :: string
  pipe_base_path :: "string option"
  squelch_pipe :: "string option"
  squelch_pipe_file :: "line list option"
  process :: "(string \<times> bool) option"
  calls :: "call list"

text \<open>
  The result of a method: \<open>None\<close> when the call does not return (the decimation loop
  runs forever, or the modification lock is already held), \<open>Some (Inl (e, s))\<close> when it
  raises \<open>e\<close> leaving the object in state \<open>s\<close>, \<open>Some (Inr s)\<close> when it returns.
\<close>

type_synonym outcome = "(error \<times> dsp + dsp) option"

definition get_output_rate :: "dsp \<Rightarrow> int" where
  "get_output_rate self = output_rate self"

definition get_demodulator :: "dsp \<Rightarrow> string" where
  "get_demodulator self = demodulator self"

definition get_secondary_demodulator :: "dsp \<Rightarrow> string option" where
  "get_secondary_demodulator self = secondary_demodulator self"

text \<open>
  \<open>isDigitalVoice\<close> and \<open>isWsjtMode\<close> take an optional argument; without it (or with
  \<open>None\<close>) they read the object's own demodulator. The secondary demodulator may itself
  be \<open>None\<close>, which is in no list.
\<close>

definition isDigitalVoice :: "dsp \<Rightarrow> string option \<Rightarrow> bool" where
  "isDigitalVoice self dem =
     (let dem' = (case dem of None \<Rightarrow> get_demodulator self | Some d \<Rightarrow> d)
      in dem' \<in> set [''dmr'', ''dstar'', ''nxdn'', ''ysf''])"

definition isWsjtMode :: "dsp \<Rightarrow> string option \<Rightarrow> bool" where
  "isWsjtMode self dem =
     (let dem' = (case dem of None \<Rightarrow> get_secondary_demodulator self | Some d \<Rightarrow> Some d)
      in case dem' of
           None \<Rightarrow> False
         | Some d \<Rightarrow> d \<in> set [''ft8'', ''wspr'', ''jt65'', ''jt9'', ''ft4''])"

definition get_audio_rate :: "dsp \<Rightarrow> int" where
  "get_audio_rate self =
     (if isDigitalVoice self None then 48000
      else if isWsjtMode self None then 12000
      else get_output_rate self)"

definition calculate_decimation :: "dsp \<Rightarrow> outcome" where
  "calculate_decimation self =
     (let self1 = self\<lparr>calls := calls self @ [CalculateDecimation]\<rparr>
      in case get_decimation (samp_rate self1) (get_audio_rate self1) of
           None \<Rightarrow> None
         | Some (Inl e) \<Rightarrow> Some (Inl (e, self1))
         | Some (Inr (d, f, _)) \<Rightarrow>
             Some (Inr (self1\<lparr>decimation := Some d, last_decimation := Some f\<rparr>)))"

subsection \<open>The stage list\<close>

text \<open>Python's truth value of \<open>self.secondary_demodulator\<close>: \<open>None\<close> and the empty
  string are false.\<close>

definition truthy :: "string option \<Rightarrow> bool" where
  "truthy v = (case v of None \<Rightarrow> False | Some x \<Rightarrow> x \<noteq> [])"

text \<open>
  \<open>chain\<close> builds the list of stage templates. Reading \<open>self.last_decimation\<close> raises
  AttributeError when no rate profile has been calculated yet; the read comes after the
  early return of the \<open>fft\<close> branch. The one \<open>.format(max_gain=max_gain)\<close> call inside
  \<open>chain\<close> is written out: \<open>str(5)\<close> is \<open>5\<close> and \<open>str(0.0005)\<close> is \<open>0.0005\<close>.
\<close>

definition chain :: "dsp \<Rightarrow> string \<Rightarrow> error + string list" where
  "chain self which =
    (let chain0 = [''nc -v 127.0.0.1 {nc_port}''];
         chain1 = chain0 @ (if csdr_dynamic_bufsize self then [''csdr setbuf {start_bufsize}''] else []);
         chain2 = chain1 @ (if csdr_through self then [''csdr through''] else [])
     in
     if which = ''fft'' then
       Inr (chain2 @
         [''csdr fft_cc {fft_size} {fft_block_size}'',
          (if fft_averages self = 0 then ''csdr logpower_cf -70''
           else ''csdr logaveragepower_cf -70 {fft_size} {fft_averages}''),
          ''csdr fft_exchange_sides_ff {fft_size}''] @
         (if fft_compression self = ''adpcm'' then [''csdr compress_fft_adpcm_f_u8 {fft_size}'']
          else []))
     else
       let chain3 = chain2 @
             [''csdr shift_addition_cc --fifo {shift_pipe}'',
              ''csdr fir_decimate_cc {decimation} {ddc_transition_bw} HAMMING'',
              ''csdr bandpass_fir_fft_cc --fifo {bpf_pipe} {bpf_transition_bw} HAMMING'',
              ''csdr squelch_and_smeter_cc --fifo {squelch_pipe} --outfifo {smeter_pipe} 5 {smeter_report_every}''];
           chain4 = chain3 @
             (if truthy (secondary_demodulator self)
              then [''csdr tee {iqtee_pipe}'', ''csdr tee {iqtee2_pipe}''] else [])
       in
       case last_decimation self of
         None \<Rightarrow> Inl AttributeError
       | Some ld \<Rightarrow>
         let last_decimation_block =
               (if ld \<noteq> 1 then [''csdr fractional_decimator_ff {last_decimation}''] else []);
             chain5 =
               (if which = ''nfm'' then
                  chain4 @ [''csdr fmdemod_quadri_cf'', ''csdr limit_ff''] @
                  last_decimation_block @
                  [''csdr deemphasis_nfm_ff {output_rate}'', ''csdr convert_f_s16'']
                else if isDigitalVoice self (Some which) then
                  let c1 = chain4 @ [''csdr fmdemod_quadri_cf'', ''dc_block ''] @
                             last_decimation_block;
                      (c2, max_gain) =
                        (if which \<in> set [''dstar'', ''nxdn''] then
                           (c1 @ [''csdr limit_ff'', ''csdr convert_f_s16''] @
                            (if which = ''dstar''
                             then [''dsd -fd -i - -o - -u {unvoiced_quality} -g -1 '']
                             else if which = ''nxdn''
                             then [''dsd -fi -i - -o - -u {unvoiced_quality} -g -1 '']
                             else []) @
                            [''CSDR_FIXED_BUFSIZE=32 csdr convert_s16_f''],
                            ''5'')
                         else
                           (c1 @ [''rrc_filter'', ''gfsk_demodulator''] @
                            (if which = ''dmr''
                             then [''dmr_decoder --fifo {meta_pipe} --control-fifo {dmr_control_pipe}'',
                                   ''mbe_synthesizer -f -u {unvoiced_quality}'']
                             else if which = ''ysf''
                             then [''ysf_decoder --fifo {meta_pipe}'',
                                   ''mbe_synthesizer -y -f -u {unvoiced_quality}'']
                             else []),
                            ''0.0005''))
                  in c2 @
                     [''digitalvoice_filter -f'',
                      ''CSDR_FIXED_BUFSIZE=32 csdr agc_ff 160000 0.8 1 0.0000001 '' @ max_gain,
                      ''sox -t raw -r 8000 -e floating-point -b 32 -c 1 --buffer 32 - -t raw -r {output_rate} -e signed-integer -b 16 -c 1 - '']
                else if which = ''am'' then
                  chain4 @ [''csdr amdemod_cf'', ''csdr fastdcblock_ff''] @
                  last_decimation_block @
                  [''csdr agc_ff'', ''csdr limit_ff'', ''csdr convert_f_s16'']
                else if which = ''ssb'' then
                  chain4 @ [''csdr realpart_cf''] @
                  last_decimation_block @
                  [''csdr agc_ff'', ''csdr limit_ff''] @
                  (if isWsjtMode self None \<and> get_audio_rate self \<noteq> get_output_rate self
                   then [''sox -t raw -r {audio_rate} -e floating-point -b 32 -c 1 --buffer 32 - -t raw -r {output_rate} -e signed-integer -b 16 -c 1 - '']
                   else [''csdr convert_f_s16''])
                else chain4)
         in Inr (chain5 @
                 (if audio_compression self = ''adpcm'' then [''csdr encode_ima_adpcm_i16_u8'']
                  else [])))"

subsection \<open>Live tuning of the squelch\<close>

text \<open>
  \<open>set_squelch_level\<close> stores the threshold first. When the chain runs it takes the
  modification lock, writes one line to \<open>self.squelch_pipe_file\<close> and releases the lock.
  Taking a lock that is held does not return; writing to a file attribute that does not
  exist raises AttributeError with the lock still held.
\<close>

definition set_squelch_level :: "rat \<Rightarrow> dsp \<Rightarrow> outcome" where
  "set_squelch_level level self =
     (let self1 = self\<lparr>squelch_level := level\<rparr>;
          actual_squelch = (if isDigitalVoice self1 None then 0 else squelch_level self1)
      in if running self1 then
           (if modification_lock self1 then None
            else
              let self2 = self1\<lparr>modification_lock := True\<rparr>
              in case squelch_pipe_file self2 of
                   None \<Rightarrow> Some (Inl (AttributeError, self2))
                 | Some f \<Rightarrow>
                     Some (Inr (self2\<lparr>squelch_pipe_file := Some (f @ [PercentG actual_squelch]),
                                      modification_lock := False\<rparr>)))
         else Some (Inr self1))"

subsection \<open>Start, stop, restart\<close>

text \<open>
  The lifecycle is modelled as far as the fields above go: the running flag, the
  modification lock, the primary process and the squelch control pipe. Left out are the
  other control pipes (shift, bpf, smeter, meta, dmr control), the secondary processes,
  the output sink, the watcher thread and the file system, together with the errors
  that these parts can raise. \<open>format_error\<close> is what the evaluation of the arguments of
  \<open>command_base.format(...)\<close> can raise, in the order the arguments are written: the
  reads of \<open>decimation\<close> and \<open>last_decimation\<close>, \<open>samp_rate / fft_fps\<close> and the division
  by \<open>fft_averages\<close> in \<open>fft_block_size\<close>, \<open>samp_rate / decimation\<close> in \<open>if_samp_rate\<close> and
  the division by it, and \<open>float(samp_rate)\<close> in \<open>ddc_transition_bw\<close>.
\<close>

definition andthen :: "outcome \<Rightarrow> (dsp \<Rightarrow> outcome) \<Rightarrow> outcome" where
  "andthen r f = (case r of None \<Rightarrow> None | Some (Inl x) \<Rightarrow> Some (Inl x) | Some (Inr s) \<Rightarrow> f s)"

fun join :: "string \<Rightarrow> string list \<Rightarrow> string" where
  "join sep [] = []"
| "join sep [x] = x"
| "join sep (x # y # ys) = x @ sep @ join sep (y # ys)"

fun startswith :: "string \<Rightarrow> string \<Rightarrow> bool" where
  "startswith s [] = True"
| "startswith [] (p # ps) = False"
| "startswith (c # cs) (p # ps) = (c = p \<and> startswith cs ps)"

fun contains :: "string \<Rightarrow> string \<Rightarrow> bool" where
  "contains sub [] = (sub = [])"
| "contains sub (c # cs) = (startswith (c # cs) sub \<or> contains sub cs)"

definition format_error :: "dsp \<Rightarrow> error option" where
  "format_error self =
     (case decimation self of
        None \<Rightarrow> Some AttributeError
      | Some d \<Rightarrow>
          if last_decimation self = None then Some AttributeError
          else
            (case int_truediv (samp_rate self) (fft_fps self) of
               Inl e \<Rightarrow> Some e
             | Inr block \<Rightarrow>
                 if fft_averages self \<noteq> 0 \<and> isl (int_to_float (fft_averages self))
                 then Some OverflowError
                 else
                 (case int_truediv (samp_rate self) d of
                    Inl e \<Rightarrow> Some e
                  | Inr if_samp_rate \<Rightarrow>
                      if if_samp_rate = 0 then Some ZeroDivisionError
                      else (case int_to_float (samp_rate self) of
                              Inl e \<Rightarrow> Some e
                            | Inr _ \<Rightarrow> None))))"

definition start :: "dsp \<Rightarrow> outcome" where
  "start self =
     (if modification_lock self then None
      else
        let self1 = self\<lparr>calls := calls self @ [Start], modification_lock := True\<rparr>
        in if running self1 then Some (Inr (self1\<lparr>modification_lock := False\<rparr>))
           else
             let self2 = self1\<lparr>running := True\<rparr>
             in case chain self2 (demodulator self2) of
                  Inl e \<Rightarrow> Some (Inl (e, self2))
                | Inr stages \<Rightarrow>
                    let command_base = join '' | '' stages;
                        base = temporary_directory self2 @ ''/openwebrx_pipe_'' @
                               object_id self2 @ ''_'';
                        self3 = self2\<lparr>pipe_base_path := Some base,
                                  squelch_pipe :=
                                    (if contains ''{squelch_pipe}'' command_base
                                     then Some (base @ ''squelch_pipe'') else None)\<rparr>
                    in (case format_error self3 of
                         Some e \<Rightarrow> Some (Inl (e, self3))
                       | None \<Rightarrow>
                           let self4 = self3\<lparr>process := Some (command_base, True)\<rparr>;
                               self5 = (if truthy (squelch_pipe self4)
                                        then self4\<lparr>squelch_pipe_file := Some []\<rparr> else self4);
                               self6 = self5\<lparr>modification_lock := False\<rparr>
                           in if truthy (squelch_pipe self6)
                              then set_squelch_level (squelch_level self6) self6
                              else Some (Inr self6)))"

definition stop :: "dsp \<Rightarrow> outcome" where
  "stop self =
     (if modification_lock self then None
      else
        let self1 = self\<lparr>calls := calls self @ [Stop], modification_lock := True\<rparr>;
            self2 = self1\<lparr>running := False\<rparr>;
            self3 = (case process self2 of
                       None \<Rightarrow> self2
                     | Some (cmd, _) \<Rightarrow> self2\<lparr>process := Some (cmd, False)\<rparr>)
        in Some (Inr (self3\<lparr>modification_lock := False\<rparr>)))"

definition restart :: "dsp \<Rightarrow> outcome" where
  "restart self =
     (let self1 = self\<lparr>calls := calls self @ [Restart]\<rparr>
      in if \<not> running self1 then Some (Inr self1)
         else andthen (stop self1) start)"

subsection \<open>Changing the demodulators\<close>

definition set_demodulator :: "string \<Rightarrow> dsp \<Rightarrow> outcome" where
  "set_demodulator dem self =
     (if demodulator self = dem then Some (Inr self)
      else andthen (calculate_decimation (self\<lparr>demodulator := dem\<rparr>)) restart)"

definition set_secondary_demodulator :: "string option \<Rightarrow> dsp \<Rightarrow> outcome" where
  "set_secondary_demodulator what self =
     (if get_secondary_demodulator self = what then Some (Inr self)
      else andthen (calculate_decimation (self\<lparr>secondary_demodulator := what\<rparr>)) restart)"

subsection \<open>The initial state\<close>

text \<open>The fields as \<open>__init__\<close> sets them; the temporary directory is \<open>/tmp\<close> and the
  object identity is a parameter.\<close>

definition init :: "string \<Rightarrow> dsp" where
  "init ident =
     \<lparr>samp_rate = 250000, output_rate = 11025, fft_fps = 5, fft_averages = 50,
      running = False, audio_compression = ''none'', fft_compression = ''none'',
      demodulator = ''nfm'', csdr_dynamic_bufsize = False, csdr_through = False,
      squelch_level = 0, secondary_demodulator = None, modification_lock = False,
      decimation = None, last_decimation = None, temporary_directory = ''/tmp'',
      object_id = ident, pipe_base_path = None, squelch_pipe = None,
      squelch_pipe_file = None, process = None, calls = []\<rparr>"

section \<open>owrx/wsjt.py: the stream chopper\<close>

subsection \<open>Naive datetimes and timedeltas\<close>

text \<open>
  A \<open>datetime\<close> without time zone: the calendar date is kept as its day number
  (\<open>toordinal()\<close>), the time of day as Python's four fields. A \<open>timedelta\<close> is a whole
  number of microseconds. \<open>to_us\<close> is the position of a datetime on the naive time line
  in microseconds; Python subtracts and adds datetimes on that line (every day has
  86400 seconds). The year range check of Python's datetime is not modelled.
\<close>

record datetime =
  ordinal :: int
  hour :: nat
  minute :: nat
  second :: nat
  microsecond :: nat

type_synonym timedelta = int

definition valid_datetime :: "datetime \<Rightarrow> bool" where
  "valid_datetime d = (hour d < 24 \<and> minute d < 60 \<and> second d < 60 \<and> microsecond d < 1000000)"

definition to_us :: "datetime \<Rightarrow> int" where
  "to_us d = ordinal d * 86400000000 + int (hour d) * 3600000000 + int (minute d) * 60000000
             + int (second d) * 1000000 + int (microsecond d)"

definition from_us :: "int \<Rightarrow> datetime" where
  "from_us n =
     \<lparr>ordinal = n div 86400000000,
      hour = nat ((n mod 86400000000) div 3600000000),
      minute = nat ((n mod 3600000000) div 60000000),
      second = nat ((n mod 60000000) div 1000000),
      microsecond = nat (n mod 1000000)\<rparr>"

definition datetime_sub :: "datetime \<Rightarrow> datetime \<Rightarrow> timedelta" where
  "datetime_sub a b = to_us a - to_us b"

definition datetime_add :: "datetime \<Rightarrow> timedelta \<Rightarrow> datetime" where
  "datetime_add a td = from_us (to_us a + td)"

definition total_seconds :: "timedelta \<Rightarrow> rat" where
  "total_seconds td = of_int td / 1000000"

text \<open>\<open>timedelta(seconds = x)\<close> rounds \<open>x\<close> to the nearest microsecond, ties to even.\<close>

definition timedelta_seconds :: "rat \<Rightarrow> timedelta" where
  "timedelta_seconds x = round_half_even (x * 1000000)"

subsection \<open>The chopper\<close>

text \<open>
  The fields of \<open>WsjtChopper\<close> that rotation and dispatch use. \<open>interval\<close> is set by
  the subclasses (15, 120, 60, 60 and 7.5 seconds). \<open>scheduled\<close> is the queue of the
  scheduler: the absolute times at which \<open>switchFiles\<close> is to run. \<open>dispatched\<close> lists
  the files for which \<open>decode\<close> has started a decoder thread, oldest first; what the
  threads do afterwards runs concurrently and is not modelled. The contents of the wave
  files and the switching lock, which only keeps the writer away while the file is
  exchanged, are left out.
\<close>

record chopper =
  interval :: rat
  wavefilename :: string
  fileQueue :: "string list"
  scheduled :: "rat list"
  dispatched :: "string list"

text \<open>
  \<open>getNextDecodingTime\<close> reads the clock: \<open>now\<close> is the value of \<open>datetime.now()\<close>, and
  \<open>timestamp\<close> is the platform's conversion \<open>datetime.timestamp()\<close> of a naive local
  datetime to seconds since the epoch.
\<close>

definition getNextDecodingTime :: "(datetime \<Rightarrow> rat) \<Rightarrow> datetime \<Rightarrow> chopper \<Rightarrow> error + rat" where
  "getNextDecodingTime timestamp now self =
     (let t = now;
          zeroed = t\<lparr>minute := 0, second := 0, microsecond := 0\<rparr>;
          delta = datetime_sub t zeroed
      in if interval self = 0 then Inl ZeroDivisionError
         else
           let seconds = of_int (py_int (total_seconds delta / interval self) + 1) * interval self;
               t' = datetime_add zeroed (timedelta_seconds seconds)
           in Inr (timestamp t'))"

definition scheduleNextSwitch :: "(datetime \<Rightarrow> rat) \<Rightarrow> datetime \<Rightarrow> chopper \<Rightarrow> error + chopper" where
  "scheduleNextSwitch timestamp now self =
     (case getNextDecodingTime timestamp now self of
        Inl e \<Rightarrow> Inl e
      | Inr time \<Rightarrow> Inr (self\<lparr>scheduled := scheduled self @ [time]\<rparr>))"

text \<open>
  \<open>switchFiles\<close>: the name of the fresh wave file comes from \<open>getWaveFile\<close>, which
  formats the clock; it is the argument \<open>new_filename\<close>. The sealed file's name is
  appended to the queue.
\<close>

definition switchFiles :: "(datetime \<Rightarrow> rat) \<Rightarrow> datetime \<Rightarrow> string \<Rightarrow> chopper \<Rightarrow> error + chopper" where
  "switchFiles timestamp now new_filename self =
     (let filename = wavefilename self;
          self1 = self\<lparr>wavefilename := new_filename\<rparr>;
          self2 = self1\<lparr>fileQueue := fileQueue self1 @ [filename]\<rparr>
      in scheduleNextSwitch timestamp now self2)"

text \<open>\<open>decode\<close>: \<open>list.pop()\<close> removes and returns the last element of the queue.\<close>

definition decode :: "chopper \<Rightarrow> chopper" where
  "decode self =
     (if fileQueue self \<noteq> [] then
        let file = last (fileQueue self);
            self1 = self\<lparr>fileQueue := butlast (fileQueue self)\<rparr>
        in self1\<lparr>dispatched := dispatched self1 @ [file]\<rparr>
      else self)"

text \<open>The Ft8Chopper as its constructor leaves it, with the name of its first wave file.\<close>

definition Ft8Chopper :: "string \<Rightarrow> chopper" where
  "Ft8Chopper first_filename =
     \<lparr>interval = 15, wavefilename = first_filename, fileQueue = [], scheduled = [],
      dispatched = []\<rparr>"

text \<open>
  The scheduler thread runs \<open>switchFiles\<close> and the chopper thread runs \<open>decode\<close> after
  every read; the two touch the queue through \<open>append\<close> and \<open>pop\<close>, each of which is one
  atomic step. A run is a sequence of such steps in the order they take effect.
\<close>

datatype event = SwitchFiles datetime string | Decode

fun run :: "(datetime \<Rightarrow> rat) \<Rightarrow> event list \<Rightarrow> chopper \<Rightarrow> error + chopper" where
  "run timestamp [] self = Inr self"
| "run timestamp (SwitchFiles now new_filename # es) self =
     (case switchFiles timestamp now new_filename self of
        Inl e \<Rightarrow> Inl e
      | Inr self' \<Rightarrow> run timestamp es self')"
| "run timestamp (Decode # es) self = run timestamp es (decode self)"

text \<open>
  The timestamp of a datetime whose time zone is UTC, in seconds; the epoch 1970-01-01
  is day 719163.
\<close>

definition utc_timestamp :: "datetime \<Rightarrow> rat" where
  "utc_timestamp d = of_int (to_us d - 719163 * 86400000000) / 1000000"

section \<open>owrx/wsjt.py: the spot line parser\<close>

subsection \<open>Python strings\<close>

text \<open>
  A decoder line is a list of bytes. jt9 and wsprd print ASCII, and the model of the
  parser covers ASCII lines: a Python \<open>str\<close> is a list of 7-bit characters, and
  \<open>data.decode()\<close> of an ASCII line is the line itself. A line with a byte above 0x7F is
  outside the model (Python decodes it as UTF-8 to a string with other characters, or
  raises UnicodeDecodeError); the model gives UnicodeDecodeError for every such line.
\<close>

definition bytes_decode :: "string \<Rightarrow> error + string" where
  "bytes_decode data = (if list_all (\<lambda>c. \<not> digit7 c) data then Inr data else Inl UnicodeDecodeError)"

text \<open>UnicodeDecodeError is a subclass of ValueError: \<open>except ValueError\<close> catches both.\<close>

definition is_ValueError :: "error \<Rightarrow> bool" where
  "is_ValueError e = (e = ValueError \<or> e = UnicodeDecodeError)"

text \<open>The ASCII characters for which \<open>str.isspace()\<close> holds; \<open>strip\<close>, \<open>rstrip\<close> and the
  class \<open>\s\<close> of a regular expression use this set.\<close>

definition py_isspace :: "char \<Rightarrow> bool" where
  "py_isspace c = (c \<in> set [CHR 0x09, CHR 0x0A, CHR 0x0B, CHR 0x0C, CHR 0x0D,
                             CHR 0x1C, CHR 0x1D, CHR 0x1E, CHR 0x1F, CHR 0x20])"

definition lstrip :: "string \<Rightarrow> string" where
  "lstrip s = dropWhile py_isspace s"

definition rstrip :: "string \<Rightarrow> string" where
  "rstrip s = rev (dropWhile py_isspace (rev s))"

definition strip :: "string \<Rightarrow> string" where
  "strip s = lstrip (rstrip s)"

text \<open>\<open>s[i]\<close> for \<open>i \<ge> 0\<close> raises IndexError past the end; a slice never raises.\<close>

definition index :: "string \<Rightarrow> nat \<Rightarrow> error + string" where
  "index s i = (if i < length s then Inr [s ! i] else Inl IndexError)"

definition slice :: "string \<Rightarrow> nat \<Rightarrow> nat \<Rightarrow> string" where
  "slice s a b = take (b - a) (drop a s)"

definition slice_from :: "string \<Rightarrow> nat \<Rightarrow> string" where
  "slice_from s a = drop a s"

subsection \<open>Python numbers from strings\<close>

text \<open>
  \<open>int(s)\<close> and \<open>float(s)\<close> on a string: surrounding whitespace is stripped, a sign
  may come first, and digits may be grouped by single underscores. On an ASCII string
  the whitespace that the two converters strip is that of C's \<open>isspace\<close> (space, tab,
  line feed, vertical tab, form feed, carriage return): the separators 0x1C to 0x1F,
  which \<open>str.strip\<close> removes, make them raise ValueError. A float is the double nearest
  to the number its literal denotes, an infinity when that double would not be finite
  (the flag is the sign), or not-a-number; the sign of a zero is not kept.
\<close>

datatype pyfloat = Finite rat | Infinity bool | NaN

definition c_isspace :: "char \<Rightarrow> bool" where
  "c_isspace c = (c \<in> set [CHR 0x09, CHR 0x0A, CHR 0x0B, CHR 0x0C, CHR 0x0D, CHR 0x20])"

definition c_strip :: "string \<Rightarrow> string" where
  "c_strip s = dropWhile c_isspace (rev (dropWhile c_isspace (rev s)))"

definition is_digit :: "char \<Rightarrow> bool" where
  "is_digit c = (c \<in> set ''0123456789'')"

definition digit_value :: "char \<Rightarrow> nat" where
  "digit_value c = of_char c - 48"

fun digitpart_more :: "string \<Rightarrow> nat list \<times> string" where
  "digitpart_more [] = ([], [])"
| "digitpart_more (c # cs) =
     (if is_digit c then (let (ds, r) = digitpart_more cs in (digit_value c # ds, r))
      else if c = CHR ''_'' then
        (case cs of
           [] \<Rightarrow> ([], c # cs)
         | d # cs' \<Rightarrow>
             if is_digit d then (let (ds, r) = digitpart_more cs' in (digit_value d # ds, r))
             else ([], c # cs))
      else ([], c # cs))"

definition digitpart :: "string \<Rightarrow> (nat list \<times> string) option" where
  "digitpart s =
     (case s of
        [] \<Rightarrow> None
      | c # cs \<Rightarrow>
          if is_digit c then (let (ds, r) = digitpart_more cs in Some (digit_value c # ds, r))
          else None)"

definition digits_value :: "nat list \<Rightarrow> nat" where
  "digits_value ds = foldl (\<lambda>a d. 10 * a + d) 0 ds"

definition split_sign :: "string \<Rightarrow> bool \<times> string" where
  "split_sign s =
     (case s of
        [] \<Rightarrow> (False, s)
      | c # r \<Rightarrow> if c = CHR ''-'' then (True, r) else if c = CHR ''+'' then (False, r) else (False, s))"

definition int_of_str :: "string \<Rightarrow> error + int" where
  "int_of_str s =
     (let (negative, body) = split_sign (c_strip s)
      in case digitpart body of
           None \<Rightarrow> Inl ValueError
         | Some (ds, r) \<Rightarrow>
             if r \<noteq> [] then Inl ValueError
             else Inr (if negative then - int (digits_value ds) else int (digits_value ds)))"

definition exponent :: "string \<Rightarrow> int option" where
  "exponent s =
     (case s of
        [] \<Rightarrow> Some 0
      | c # r \<Rightarrow>
          if c = CHR ''e'' \<or> c = CHR ''E'' then
            (let (negative, body) = split_sign r
             in case digitpart body of
                  None \<Rightarrow> None
                | Some (ds, r') \<Rightarrow>
                    if r' \<noteq> [] then None
                    else Some (if negative then - int (digits_value ds) else int (digits_value ds)))
          else None)"

definition decimal :: "string \<Rightarrow> rat option" where
  "decimal s =
     (let (ip, r1) = (case digitpart s of None \<Rightarrow> ([], s) | Some x \<Rightarrow> x);
          (fp, r2) = (case r1 of
                        [] \<Rightarrow> ([], r1)
                      | c # r \<Rightarrow>
                          if c = CHR ''.'' then (case digitpart r of None \<Rightarrow> ([], r) | Some x \<Rightarrow> x)
                          else ([], r1))
      in if ip = [] \<and> fp = [] then None
         else
           let mantissa = of_nat (digits_value ip) + of_nat (digits_value fp) / 10 ^ length fp
           in case exponent r2 of
                None \<Rightarrow> None
              | Some e \<Rightarrow> Some (if 0 \<le> e then mantissa * 10 ^ nat e else mantissa / 10 ^ nat (- e)))"

definition lower :: "char \<Rightarrow> char" where
  "lower c = (case map_of (zip ''ABCDEFGHIJKLMNOPQRSTUVWXYZ'' ''abcdefghijklmnopqrstuvwxyz'') c of
                None \<Rightarrow> c | Some l \<Rightarrow> l)"

definition float_of_str :: "string \<Rightarrow> error + pyfloat" where
  "float_of_str s =
     (let (negative, body) = split_sign (c_strip s);
          low = map lower body
      in if low = ''inf'' \<or> low = ''infinity'' then Inr (Infinity negative)
         else if low = ''nan'' then Inr NaN
         else case decimal body of
                None \<Rightarrow> Inl ValueError
              | Some v \<Rightarrow>
                  let x = round_double (if negative then - v else v)
                  in if 2 ^ 1024 \<le> \<bar>x\<bar> then Inr (Infinity negative) else Inr (Finite x))"

subsection \<open>strptime\<close>

text \<open>
  \<open>datetime.strptime\<close> turns the format into a regular expression, matches it at the
  start of the string and raises ValueError when nothing matches or when unconverted
  data remains. Of the directives the model has the three that the parser uses:
  \<open>%H\<close> is \<open>2[0-3]|[0-1]\d|\d\<close>, \<open>%M\<close> is \<open>[0-5]\d|\d\<close> and \<open>%S\<close> is
  \<open>6[0-1]|[0-5]\d|\d\<close>. \<open>candidates\<close> lists what a directive can consume, in the order
  in which the alternatives are tried; the first combination that lets all directives
  match is the match. Any other character in a format is unsupported here.
\<close>

datatype directive = DirH | DirM | DirS

fun format_directives :: "string \<Rightarrow> directive list option" where
  "format_directives [] = Some []"
| "format_directives [c] = None"
| "format_directives (c # d # r) =
     (if c = CHR ''%'' \<and> d = CHR ''H'' then map_option (Cons DirH) (format_directives r)
      else if c = CHR ''%'' \<and> d = CHR ''M'' then map_option (Cons DirM) (format_directives r)
      else if c = CHR ''%'' \<and> d = CHR ''S'' then map_option (Cons DirS) (format_directives r)
      else None)"

definition two_digits :: "(char \<Rightarrow> bool) \<Rightarrow> (char \<Rightarrow> bool) \<Rightarrow> string \<Rightarrow> (nat \<times> string) list" where
  "two_digits p1 p2 s =
     (case s of
        a # b # r \<Rightarrow> if p1 a \<and> p2 b then [(10 * digit_value a + digit_value b, r)] else []
      | _ \<Rightarrow> [])"

definition one_digit :: "string \<Rightarrow> (nat \<times> string) list" where
  "one_digit s = (case s of a # r \<Rightarrow> if is_digit a then [(digit_value a, r)] else [] | _ \<Rightarrow> [])"

fun candidates :: "directive \<Rightarrow> string \<Rightarrow> (nat \<times> string) list" where
  "candidates DirH s =
     two_digits (\<lambda>c. c = CHR ''2'') (\<lambda>c. c \<in> set ''0123'') s @
     two_digits (\<lambda>c. c \<in> set ''01'') is_digit s @ one_digit s"
| "candidates DirM s = two_digits (\<lambda>c. c \<in> set ''012345'') is_digit s @ one_digit s"
| "candidates DirS s =
     two_digits (\<lambda>c. c = CHR ''6'') (\<lambda>c. c \<in> set ''01'') s @
     two_digits (\<lambda>c. c \<in> set ''012345'') is_digit s @ one_digit s"

fun first_some :: "'a option list \<Rightarrow> 'a option" where
  "first_some [] = None"
| "first_some (None # xs) = first_some xs"
| "first_some (Some x # xs) = Some x"

fun match_directives :: "directive list \<Rightarrow> string \<Rightarrow> (nat list \<times> string) option" where
  "match_directives [] s = Some ([], s)"
| "match_directives (d # ds) s =
     first_some (map (\<lambda>(v, r). map_option (\<lambda>(vs, r'). (v # vs, r')) (match_directives ds r))
                     (candidates d s))"

text \<open>The value of a directive in a match; a field without directive is 0.\<close>

definition field :: "directive \<Rightarrow> directive list \<Rightarrow> nat list \<Rightarrow> nat" where
  "field d ds vs = (case map_of (zip ds vs) d of None \<Rightarrow> 0 | Some v \<Rightarrow> v)"

text \<open>The date of the result is 1900-01-01, day 693596. The \<open>datetime\<close> constructor
  refuses a second above 59, which \<open>%S\<close> can match.\<close>

definition strptime :: "string \<Rightarrow> string \<Rightarrow> error + datetime" where
  "strptime instring dateformat =
     (case format_directives dateformat of
        None \<Rightarrow> Inl ValueError
      | Some ds \<Rightarrow>
          (case match_directives ds instring of
             None \<Rightarrow> Inl ValueError
           | Some (vs, rest) \<Rightarrow>
               if rest \<noteq> [] then Inl ValueError
               else if 59 < field DirS ds vs then Inl ValueError
               else Inr \<lparr>ordinal = 693596, hour = field DirH ds vs, minute = field DirM ds vs,
                         second = field DirS ds vs, microsecond = 0\<rparr>))"

text \<open>\<open>datetime.combine(date.today(), ts.time())\<close>; \<open>today\<close> is the day number of
  \<open>date.today()\<close>.\<close>

definition combine :: "int \<Rightarrow> datetime \<Rightarrow> datetime" where
  "combine today ts = ts\<lparr>ordinal := today\<rparr>"

definition parse_timestamp :: "int \<Rightarrow> string \<Rightarrow> string \<Rightarrow> error + int" where
  "parse_timestamp today instring dateformat =
     (case strptime instring dateformat of
        Inl e \<Rightarrow> Inl e
      | Inr ts \<Rightarrow> Inr (py_int (utc_timestamp (combine today ts) * 1000)))"

subsection \<open>Regular expressions\<close>

text \<open>
  The two patterns of the parser are sequences of repeated character classes, groups
  that do not nest, and \<open>$\<close>. \<open>Rep p lo hi\<close> is a greedy repetition of the class \<open>p\<close>,
  at least \<open>lo\<close> and at most \<open>hi\<close> times: the longest run is tried first, then shorter
  ones. \<open>$\<close> matches at the end of the string and before a newline that ends it.
  \<open>re_match_here\<close> carries the text of the open group and the closed groups; \<open>re_match\<close>
  is \<open>pattern.match(string)\<close> and gives the groups of the first match.
\<close>

datatype token = Rep "char \<Rightarrow> bool" nat "nat option" | GroupOpen | GroupClose | EndOfString

fun re_match_here :: "token list \<Rightarrow> string \<Rightarrow> string option \<Rightarrow> string list \<Rightarrow> string list option" where
  "re_match_here [] rest opn groups = Some groups"
| "re_match_here (GroupOpen # ts) rest opn groups = re_match_here ts rest (Some []) groups"
| "re_match_here (GroupClose # ts) rest opn groups =
     re_match_here ts rest None (groups @ [case opn of None \<Rightarrow> [] | Some g \<Rightarrow> g])"
| "re_match_here (EndOfString # ts) rest opn groups =
     (if rest = [] \<or> rest = [CHR 0x0A] then re_match_here ts rest opn groups else None)"
| "re_match_here (Rep p lo hi # ts) rest opn groups =
     (let n = length (takeWhile p rest);
          m = (case hi of None \<Rightarrow> n | Some h \<Rightarrow> min n h)
      in first_some
           (map (\<lambda>k. re_match_here ts (drop k rest) (map_option (\<lambda>g. g @ take k rest) opn) groups)
                (rev [lo..<Suc m])))"

definition re_match :: "token list \<Rightarrow> string \<Rightarrow> string list option" where
  "re_match pattern s = re_match_here pattern s None []"

definition re_dot :: "char \<Rightarrow> bool" where
  "re_dot c = (c \<noteq> CHR 0x0A)"

definition re_A_Z0_9 :: "char \<Rightarrow> bool" where
  "re_A_Z0_9 c = (c \<in> set ''ABCDEFGHIJKLMNOPQRSTUVWXYZ0123456789'')"

definition re_A_R :: "char \<Rightarrow> bool" where
  "re_A_R c = (c \<in> set ''ABCDEFGHIJKLMNOPQR'')"

text \<open>\<^verbatim>\<open>.*\s([A-Z0-9]+)\s([A-R]{2}[0-9]{2})$\<close>\<close>

definition locator_pattern :: "token list" where
  "locator_pattern =
     [Rep re_dot 0 None, Rep py_isspace 1 (Some 1),
      GroupOpen, Rep re_A_Z0_9 1 None, GroupClose,
      Rep py_isspace 1 (Some 1),
      GroupOpen, Rep re_A_R 2 (Some 2), Rep is_digit 2 (Some 2), GroupClose,
      EndOfString]"

text \<open>Two suffixes of the locator pattern, named for the proofs: what follows the
  callsign group, and what follows the first \<^verbatim>\<open>\s\<close>.\<close>

definition locator_tail :: "token list" where
  "locator_tail = [Rep py_isspace 1 (Some 1),
      GroupOpen, Rep re_A_R 2 (Some 2), Rep is_digit 2 (Some 2), GroupClose, EndOfString]"

definition locator_call :: "token list" where
  "locator_call = GroupOpen # Rep re_A_Z0_9 1 None # GroupClose # locator_tail"

text \<open>\<^verbatim>\<open>([A-Z0-9]*)\s([A-R]{2}[0-9]{2})\s([0-9]+)\<close>\<close>

definition wspr_splitter_pattern :: "token list" where
  "wspr_splitter_pattern =
     [GroupOpen, Rep re_A_Z0_9 0 None, GroupClose,
      Rep py_isspace 1 (Some 1),
      GroupOpen, Rep re_A_R 2 (Some 2), Rep is_digit 2 (Some 2), GroupClose,
      Rep py_isspace 1 (Some 1),
      GroupOpen, Rep is_digit 1 None, GroupClose]"

subsection \<open>The parser\<close>

text \<open>
  A spot is the dictionary that the parser hands to its handler: keys with values, in
  the order of the dictionary display. The handler, the shared map and the logger are
  outside the repository; each is the list of the calls it has received.
  \<open>LocatorLocation\<close> is the constructor of the map's location class, and a band is
  whatever \<open>Bandplan.findBand\<close> returned, or \<open>None\<close>.
\<close>

datatype pyvalue = IntV int | FloatV pyfloat | StrV string

type_synonym spot = "(string \<times> pyvalue) list"

datatype location = LocatorLocation string

record WsjtParser =
  handler :: "spot list"
  dial_freq :: "rat option"
  band :: "string option"
  Map_updates :: "(string \<times> location \<times> string \<times> string option) list"
  logged :: "string list"

definition modes :: "(string \<times> string) list" where
  "modes = [(''~'', ''FT8''), (''#'', ''JT65''), (''@'', ''JT9''), (''+'', ''FT4'')]"

definition updateLocation :: "string \<Rightarrow> location \<Rightarrow> string \<Rightarrow> string option \<Rightarrow> WsjtParser \<Rightarrow> WsjtParser" where
  "updateLocation callsign loc mode b self =
     self\<lparr>Map_updates := Map_updates self @ [(callsign, loc, mode, b)]\<rparr>"

definition parseLocator :: "string \<Rightarrow> string \<Rightarrow> WsjtParser \<Rightarrow> WsjtParser" where
  "parseLocator msg mode self =
     (case re_match locator_pattern msg of
        None \<Rightarrow> self
      | Some m \<Rightarrow>
          if m ! 1 = ''RR73'' then self
          else updateLocation (m ! 0) (LocatorLocation (m ! 1)) mode (band self) self)"

definition parseWsprMessage :: "string \<Rightarrow> WsjtParser \<Rightarrow> WsjtParser" where
  "parseWsprMessage msg self =
     (case re_match wspr_splitter_pattern msg of
        None \<Rightarrow> self
      | Some m \<Rightarrow> updateLocation (m ! 0) (LocatorLocation (m ! 1)) ''WSPR'' (band self) self)"

text \<open>
  The two line formats. The locator step runs before the fields of the result are
  converted, so a conversion error leaves its map update in place: an error carries the
  state it leaves. \<open>today\<close> is the day number of \<open>date.today()\<close>.
\<close>

definition parse_from_jt9 :: "int \<Rightarrow> string \<Rightarrow> WsjtParser \<Rightarrow> error \<times> WsjtParser + spot \<times> WsjtParser" where
  "parse_from_jt9 today msg self =
     (case index msg 19 of
        Inl e \<Rightarrow> Inl (e, self)
      | Inr c19 \<Rightarrow>
          (let dateformat = (if c19 \<in> set (map fst modes) then ''%H%M'' else ''%H%M%S'')
           in (case parse_timestamp today (slice msg 0 (length dateformat)) dateformat of
                 Inl e \<Rightarrow> Inl (e, self)
               | Inr timestamp \<Rightarrow>
                   (let msg1 = slice_from msg (length dateformat + 1);
                        modeChar = slice msg1 14 15;
                        mode = (case map_of modes modeChar of Some md \<Rightarrow> md | None \<Rightarrow> ''unknown'');
                        wsjt_msg = strip (slice msg1 17 53);
                        self1 = parseLocator wsjt_msg mode self
                    in (case float_of_str (slice msg1 0 3) of
                          Inl e \<Rightarrow> Inl (e, self1)
                        | Inr db \<Rightarrow>
                            (case float_of_str (slice msg1 4 8) of
                               Inl e \<Rightarrow> Inl (e, self1)
                             | Inr dt \<Rightarrow>
                                 (case int_of_str (slice msg1 9 13) of
                                    Inl e \<Rightarrow> Inl (e, self1)
                                  | Inr freq \<Rightarrow>
                                      Inr ([(''timestamp'', IntV timestamp), (''db'', FloatV db),
                                            (''dt'', FloatV dt), (''freq'', IntV freq),
                                            (''mode'', StrV mode), (''msg'', StrV wsjt_msg)],
                                           self1))))))))"

definition parse_from_wsprd :: "int \<Rightarrow> string \<Rightarrow> WsjtParser \<Rightarrow> error \<times> WsjtParser + spot \<times> WsjtParser" where
  "parse_from_wsprd today msg self =
     (let wsjt_msg = strip (slice_from msg 29);
          self1 = parseWsprMessage wsjt_msg self
      in (case parse_timestamp today (slice msg 0 4) ''%H%M'' of
            Inl e \<Rightarrow> Inl (e, self1)
          | Inr timestamp \<Rightarrow>
              (case float_of_str (slice msg 5 8) of
                 Inl e \<Rightarrow> Inl (e, self1)
               | Inr db \<Rightarrow>
                   (case float_of_str (slice msg 9 13) of
                      Inl e \<Rightarrow> Inl (e, self1)
                    | Inr dt \<Rightarrow>
                        (case float_of_str (slice msg 14 24) of
                           Inl e \<Rightarrow> Inl (e, self1)
                         | Inr freq \<Rightarrow>
                             (case int_of_str (slice msg 25 28) of
                                Inl e \<Rightarrow> Inl (e, self1)
                              | Inr drift \<Rightarrow>
                                  Inr ([(''timestamp'', IntV timestamp), (''db'', FloatV db),
                                        (''dt'', FloatV dt), (''freq'', FloatV freq),
                                        (''drift'', IntV drift), (''mode'', StrV ''WSPR''),
                                        (''msg'', StrV wsjt_msg)],
                                       self1)))))))"

text \<open>
  \<open>parse_body\<close> is the body of the \<open>try\<close> statement of \<open>parse\<close>; \<open>parse\<close> adds the handler
  \<open>except ValueError\<close>, which logs and returns. Any other exception leaves \<open>parse\<close>.
\<close>

definition parse_body :: "int \<Rightarrow> string \<Rightarrow> WsjtParser \<Rightarrow> error \<times> WsjtParser + WsjtParser" where
  "parse_body today data self =
     (case bytes_decode data of
        Inl e \<Rightarrow> Inl (e, self)
      | Inr decoded \<Rightarrow>
          (let msg = rstrip decoded
           in if startswith msg ''<DecodeFinished>'' then Inr self
              else if startswith msg '' EOF on input file'' then Inr self
              else
                (case index msg 21 of
                   Inl e \<Rightarrow> Inl (e, self)
                 | Inr c21 \<Rightarrow>
                     (case (if c21 \<in> set (map fst modes) then Inr True
                            else (case index msg 19 of
                                    Inl e \<Rightarrow> Inl e
                                  | Inr c19 \<Rightarrow> Inr (c19 \<in> set (map fst modes)))) of
                        Inl e \<Rightarrow> Inl (e, self)
                      | Inr is_jt9 \<Rightarrow>
                          (case (if is_jt9 then parse_from_jt9 today msg self
                                 else parse_from_wsprd today msg self) of
                             Inl x \<Rightarrow> Inl x
                           | Inr (out, self1) \<Rightarrow>
                               Inr (self1\<lparr>handler := handler self1 @ [out]\<rparr>))))))"

definition parse :: "int \<Rightarrow> string \<Rightarrow> WsjtParser \<Rightarrow> error \<times> WsjtParser + WsjtParser" where
  "parse today data self =
     (case parse_body today data self of
        Inl (e, self1) \<Rightarrow>
          if is_ValueError e
          then Inr (self1\<lparr>logged := logged self1 @ [''error while parsing wsjt message'']\<rparr>)
          else Inl (e, self1)
      | Inr self1 \<Rightarrow> Inr self1)"

text \<open>The parser as its constructor leaves it, with a handler that has received nothing.\<close>

definition WsjtParser_init :: WsjtParser where
  "WsjtParser_init = \<lparr>handler = [], dial_freq = None, band = None, Map_updates = [], logged = []\<rparr>"

section \<open>Theorems\<close>

subsection \<open>Rounding to a double\<close>

lemma bit_length_pos: "0 < n \<Longrightarrow> bit_length n = Suc (bit_length (n div 2))"
  by (subst bit_length.simps) simp

lemma bit_length_zero: "bit_length 0 = 0"
  by (subst bit_length.simps) simp

lemma bit_length_lower: "0 < n \<Longrightarrow> 2 ^ (bit_length n - 1) \<le> n"
proof (induction n rule: bit_length.induct)
  case (1 n)
  show ?case
  proof (cases "n div 2 = 0")
    case True
    then show ?thesis using "1.prems" by (simp add: bit_length_pos bit_length_zero)
  next
    case False
    then have h: "0 < n div 2" by simp
    from "1.IH" "1.prems" h have ih: "2 ^ (bit_length (n div 2) - 1) \<le> n div 2" by simp
    have "bit_length (n div 2) = Suc (bit_length (n div 2) - 1)"
      using h by (simp add: bit_length_pos)
    then have "(2::nat) ^ bit_length (n div 2) = 2 * 2 ^ (bit_length (n div 2) - 1)"
      by (metis power_Suc)
    with ih have "(2::nat) ^ bit_length (n div 2) \<le> 2 * (n div 2)" by simp
    also have "\<dots> \<le> n" by simp
    finally show ?thesis using "1.prems" by (simp add: bit_length_pos)
  qed
qed

lemma bit_length_upper: "n < 2 ^ bit_length n"
proof (induction n rule: bit_length.induct)
  case (1 n)
  show ?case
  proof (cases "n = 0")
    case True
    then show ?thesis by (simp add: bit_length_zero)
  next
    case False
    with "1.IH" have "n div 2 < 2 ^ bit_length (n div 2)" by simp
    then have "n < 2 * 2 ^ bit_length (n div 2)" by linarith
    then show ?thesis using False by (simp add: bit_length_pos)
  qed
qed

lemma ilog2_lower:
  assumes "0 < x"
  shows "2 powi (ilog2 x) \<le> x"
proof (cases "1 \<le> x")
  case True
  define n where "n = nat \<lfloor>x\<rfloor>"
  have fl: "1 \<le> \<lfloor>x\<rfloor>" using True by (simp add: le_floor_iff)
  then have n: "0 < n" by (simp add: n_def)
  have nx: "rat_of_nat n \<le> x"
  proof -
    have "rat_of_nat n = of_int \<lfloor>x\<rfloor>" using fl by (simp add: n_def)
    then show ?thesis by simp
  qed
  have "1 \<le> bit_length n" using n by (simp add: bit_length_pos)
  then have "ilog2 x = int (bit_length n - 1)"
    using True by (simp add: ilog2_def n_def)
  then have "(2::rat) powi (ilog2 x) = 2 ^ (bit_length n - 1)" by simp
  also have "\<dots> = rat_of_nat (2 ^ (bit_length n - 1))" by simp
  also have "\<dots> \<le> rat_of_nat n" using bit_length_lower[OF n] by (simp only: of_nat_le_iff)
  finally show ?thesis using nx by simp
next
  case False
  define m where "m = nat (\<lceil>1 / x\<rceil> - 1)"
  have "1 < 1 / x" using False assms by simp
  then have c: "2 \<le> \<lceil>1 / x\<rceil>" by (simp add: le_ceiling_iff) 
  have "1 / x \<le> of_int \<lceil>1 / x\<rceil>" by simp
  also have "of_int \<lceil>1 / x\<rceil> = rat_of_nat (m + 1)"
  proof -
    have "0 \<le> \<lceil>1 / x\<rceil> - 1" using c by linarith
    then have "int m = \<lceil>1 / x\<rceil> - 1" unfolding m_def by (rule nat_0_le)
    then have "int (m + 1) = \<lceil>1 / x\<rceil>" by linarith
    then have "rat_of_int (int (m + 1)) = of_int \<lceil>1 / x\<rceil>" by (rule arg_cong)
    then show ?thesis by (simp only: of_int_of_nat_eq)
  qed
  also have "\<dots> \<le> rat_of_nat (2 ^ bit_length m)"
  proof -
    have "m + 1 \<le> 2 ^ bit_length m" using bit_length_upper[of m] by simp
    then show ?thesis by (simp only: of_nat_le_iff)
  qed
  finally have "1 / x \<le> 2 ^ bit_length m" by simp
  then have "1 \<le> 2 ^ bit_length m * x" using assms by (simp add: pos_divide_le_eq)
  then have "1 / 2 ^ bit_length m \<le> x" by (simp add: pos_divide_le_eq mult.commute)
  moreover have "ilog2 x = - int (bit_length m)" using False by (simp add: ilog2_def m_def)
  ultimately show ?thesis by (simp add: power_int_minus inverse_eq_divide)
qed

lemma ilog2_upper:
  assumes "0 < x"
  shows "x < 2 powi (ilog2 x + 1)"
proof (cases "1 \<le> x")
  case True
  define n where "n = nat \<lfloor>x\<rfloor>"
  have fl: "1 \<le> \<lfloor>x\<rfloor>" using True by (simp add: le_floor_iff)
  then have n: "0 < n" by (simp add: n_def)
  have "1 \<le> bit_length n" using n by (simp add: bit_length_pos)
  then have "ilog2 x + 1 = int (bit_length n)"
    using True by (simp add: ilog2_def n_def)
  then have e: "(2::rat) powi (ilog2 x + 1) = 2 ^ bit_length n" by simp
  have "x < of_int \<lfloor>x\<rfloor> + 1" by linarith
  also have "of_int \<lfloor>x\<rfloor> + 1 = rat_of_nat (n + 1)" using fl by (simp add: n_def)
  also have "\<dots> \<le> rat_of_nat (2 ^ bit_length n)"
  proof -
    have "n + 1 \<le> 2 ^ bit_length n" using bit_length_upper[of n] by simp
    then show ?thesis by (simp only: of_nat_le_iff)
  qed
  finally show ?thesis using e by simp
next
  case False
  define m where "m = nat (\<lceil>1 / x\<rceil> - 1)"
  have "1 < 1 / x" using False assms by simp
  then have c: "2 \<le> \<lceil>1 / x\<rceil>" by (simp add: le_ceiling_iff)
  then have m: "0 < m" by (simp add: m_def)
  have "rat_of_nat (2 ^ (bit_length m - 1)) \<le> rat_of_nat m"
    using bit_length_lower[OF m] by (simp only: of_nat_le_iff)
  also have "rat_of_nat m = of_int \<lceil>1 / x\<rceil> - 1"
  proof -
    have "0 \<le> \<lceil>1 / x\<rceil> - 1" using c by linarith
    then have "int m = \<lceil>1 / x\<rceil> - 1" unfolding m_def by (rule nat_0_le)
    then have "rat_of_int (int m) = of_int (\<lceil>1 / x\<rceil> - 1)" by (rule arg_cong)
    then show ?thesis by (simp only: of_int_of_nat_eq of_int_diff of_int_1)
  qed
  also have "\<dots> < 1 / x" by linarith
  finally have "2 ^ (bit_length m - 1) < 1 / x" by simp
  then have "2 ^ (bit_length m - 1) * x < 1" using assms by (simp add: pos_less_divide_eq)
  then have lt: "x < 1 / 2 ^ (bit_length m - 1)" by (simp add: pos_less_divide_eq mult.commute)
  have "1 \<le> bit_length m" using m by (simp add: bit_length_pos)
  then have "ilog2 x + 1 = - int (bit_length m - 1)"
    using False by (simp add: ilog2_def m_def)
  then have "(2::rat) powi (ilog2 x + 1) = 1 / 2 ^ (bit_length m - 1)"
    by (simp add: power_int_minus inverse_eq_divide)
  with lt show ?thesis by simp
qed

lemma ilog2_unique:
  assumes "2 powi e \<le> x" and "x < 2 powi (e + 1)"
  shows "ilog2 x = e"
proof -
  have pos: "0 < x" using assms(1) zero_less_power_int[of "2::rat" e] by linarith
  have "(2::rat) powi (ilog2 x) < 2 powi (e + 1)"
    using ilog2_lower[OF pos] assms(2) by linarith
  then have a: "ilog2 x < e + 1"
    by (metis not_less power_int_increasing one_le_numeral)
  have "(2::rat) powi e < 2 powi (ilog2 x + 1)"
    using ilog2_upper[OF pos] assms(1) by linarith
  then have "e < ilog2 x + 1"
    by (metis not_less power_int_increasing one_le_numeral)
  with a show ?thesis by simp
qed

lemma round_half_even_bounds:
  "of_int (round_half_even y) \<le> y + 1 / 2 \<and> y - 1 / 2 \<le> of_int (round_half_even y)"
proof -
  have "of_int f \<le> y \<Longrightarrow> y < of_int f + 1 \<Longrightarrow>
        rat_of_int (if y - of_int f < 1 / 2 then f else if 1 / 2 < y - of_int f then f + 1
                    else if even f then f else f + 1) \<le> y + 1 / 2
        \<and> y - 1 / 2 \<le> rat_of_int (if y - of_int f < 1 / 2 then f
                    else if 1 / 2 < y - of_int f then f + 1
                    else if even f then f else f + 1)" for f
    by auto
  moreover have "of_int \<lfloor>y\<rfloor> \<le> y" and "y < of_int \<lfloor>y\<rfloor> + 1" by linarith+
  ultimately show ?thesis unfolding round_half_even_def Let_def by blast
qed

lemma round_half_even_unique:
  assumes "\<bar>y - of_int m\<bar> < 1 / 2"
  shows "round_half_even y = m"
proof -
  from round_half_even_bounds[of y] assms
  have "\<bar>rat_of_int (round_half_even y) - of_int m\<bar> < 1" by linarith
  then have "\<bar>rat_of_int (round_half_even y - m)\<bar> < of_int 1" by simp
  then have "\<bar>round_half_even y - m\<bar> < 1" by (simp only: of_int_abs[symmetric] of_int_less_iff)
  then show ?thesis by simp
qed

lemma round_half_even_ge:
  assumes "of_int n \<le> y"
  shows "n \<le> round_half_even y"
proof -
  from round_half_even_bounds[of y] assms
  have "rat_of_int n - 1 < of_int (round_half_even y)" by linarith
  then have "rat_of_int (n - 1) < of_int (round_half_even y)" by simp
  then have "n - 1 < round_half_even y" by (simp only: of_int_less_iff)
  then show ?thesis by simp
qed

lemma round_half_even_less:
  assumes "y < of_int n - 1 / 2"
  shows "round_half_even y < n"
proof -
  from round_half_even_bounds[of y] assms
  have "rat_of_int (round_half_even y) < of_int n" by linarith
  then show ?thesis by (simp only: of_int_less_iff)
qed

lemma powi_nonpos: "q \<le> 0 \<Longrightarrow> (2::rat) powi q = 1 / of_int (2 ^ nat (- q))"
  by (cases "q = 0") (simp_all add: power_int_def power_inverse inverse_eq_divide power_one_over)

lemma round_double_pos:
  "0 < x \<Longrightarrow> round_double x =
     of_int (round_half_even (x / 2 powi (max (ilog2 x - 52) (- 1074))))
       * 2 powi (max (ilog2 x - 52) (- 1074))"
  by (simp add: round_double_def Let_def)

lemma quantum_nonpos:
  assumes "0 < x" and "x < 2 ^ 53"
  shows "max (ilog2 x - 52) (- 1074) \<le> 0"
proof -
  have "(2::rat) powi (ilog2 x) < 2 powi 53"
    using ilog2_lower[OF assms(1)] assms(2) by simp
  then have "ilog2 x < 53"
    by (metis not_less power_int_increasing one_le_numeral)
  then show ?thesis by simp
qed

lemma quantum_le:
  assumes "0 < x"
  shows "2 powi (max (ilog2 x - 52) (- 1074)) \<le> max (x / 2 ^ 52) (2 powi (- 1074))"
proof (cases "ilog2 x - 52 \<le> - 1074")
  case True
  then have "max (ilog2 x - 52) (- 1074) = - 1074" by simp
  then show ?thesis by (simp only: max.cobounded2)
next
  case False
  then have m: "max (ilog2 x - 52) (- 1074) = ilog2 x - 52" by simp
  have "(2::rat) powi (ilog2 x - 52) = 2 powi (ilog2 x) / 2 powi 52"
    by (rule power_int_diff) simp
  also have "\<dots> \<le> x / 2 powi 52"
    using ilog2_lower[OF assms] by (intro divide_right_mono) simp_all
  finally have "(2::rat) powi (ilog2 x - 52) \<le> x / 2 ^ 52" by simp
  then show ?thesis unfolding m by (rule max.coboundedI1)
qed

lemma round_double_int:
  assumes "0 < n" and "n < 2 ^ 53"
  shows "round_double (of_int n) = of_int n"
proof -
  define q where "q = max (ilog2 (rat_of_int n) - 52) (- 1074)"
  define M :: int where "M = 2 ^ nat (- q)"
  have x: "(0::rat) < of_int n" "rat_of_int n < 2 ^ 53"
    using assms by (simp_all flip: of_int_less_iff)
  have q: "q \<le> 0" unfolding q_def by (rule quantum_nonpos[OF x])
  have M: "0 < M" by (simp add: M_def)
  have P: "(2::rat) powi q = 1 / of_int M" unfolding M_def by (rule powi_nonpos[OF q])
  have "rat_of_int n / (2 powi q) = of_int (n * M)" by (simp add: P)
  then have "round_half_even (rat_of_int n / (2 powi q)) = n * M"
    by (simp only: round_half_even_unique) 
  then have "round_double (of_int n) = of_int (n * M) * (1 / of_int M)"
    using round_double_pos[OF x(1)] by (simp only: q_def[symmetric] P)
  then show ?thesis using M by simp
qed

lemma round_double_range:
  assumes "0 < x" and "x < 2 ^ 53"
  shows "0 \<le> round_double x \<and> round_double x \<le> x + 1 / 2"
proof -
  define q where "q = max (ilog2 x - 52) (- 1074)"
  define M :: int where "M = 2 ^ nat (- q)"
  have q: "q \<le> 0" unfolding q_def by (rule quantum_nonpos[OF assms])
  have M: "1 \<le> M" by (simp add: M_def)
  have P: "(2::rat) powi q = 1 / of_int M" unfolding M_def by (rule powi_nonpos[OF q])
  have Ppos: "(0::rat) < 1 / of_int M" using M by simp
  have Ple: "1 / rat_of_int M \<le> 1" using M by simp
  have v: "round_double x = of_int (round_half_even (x * of_int M)) * (1 / of_int M)"
    using round_double_pos[OF assms(1)] by (simp add: q_def[symmetric] P)
  have "0 \<le> x * rat_of_int M" using assms(1) M by simp
  then have "0 \<le> round_half_even (x * of_int M)"
    by (intro round_half_even_ge) simp
  then have lo: "0 \<le> round_double x" using M by (simp add: v)
  have "rat_of_int (round_half_even (x * of_int M)) \<le> x * of_int M + 1 / 2"
    using round_half_even_bounds[of "x * of_int M"] by simp
  then have "rat_of_int (round_half_even (x * of_int M)) * (1 / of_int M)
      \<le> (x * of_int M + 1 / 2) * (1 / of_int M)"
    using Ppos by (intro mult_right_mono) simp_all
  also have "\<dots> = x + (1 / 2) * (1 / of_int M)" using M by (simp add: field_simps)
  also have "\<dots> \<le> x + 1 / 2" using Ple by simp
  finally show ?thesis using lo by (simp add: v)
qed

lemma int_truediv_value:
  assumes "0 < a" and "a < 2 ^ 53" and "0 < k"
  shows "int_truediv a k = Inr (round_double (of_int a / of_int k))"
proof -
  have k: "(1::rat) \<le> of_int k" using assms(3) by (simp flip: of_int_less_iff)
  have a: "(0::rat) < of_int a" "rat_of_int a < 2 ^ 53"
    using assms by (simp_all flip: of_int_less_iff)
  have x: "0 < rat_of_int a / of_int k" using a k by simp
  have "rat_of_int a / of_int k \<le> of_int a / 1"
    using a k by (intro divide_left_mono) simp_all
  then have x2: "rat_of_int a / of_int k < 2 ^ 53" using a by simp
  from round_double_range[OF x x2]
  have "\<bar>round_double (rat_of_int a / of_int k)\<bar> < 2 ^ 53 + 1" using x2 by linarith
  also have "(2::rat) ^ 53 + 1 \<le> 2 ^ 1024" by simp
  finally show ?thesis using assms(3) by (simp add: int_truediv_def Let_def)
qed

lemma truediv_ge_iff:
  assumes "0 < a" and "a < 2 ^ 53" and "0 < k" and "k \<le> 2 ^ 53"
  shows "of_int b \<le> round_double (of_int a / of_int k) \<longleftrightarrow> b * k \<le> a"
proof -
  define x where "x = rat_of_int a / of_int k"
  define q where "q = max (ilog2 x - 52) (- 1074)"
  define M :: int where "M = 2 ^ nat (- q)"
  have k: "(0::rat) < of_int k" "(1::rat) \<le> of_int k" "rat_of_int k \<le> 2 ^ 53"
    using assms(3,4) by (simp_all flip: of_int_less_iff of_int_le_iff)
  have a: "(0::rat) < of_int a" "rat_of_int a < 2 ^ 53"
    using assms by (simp_all flip: of_int_less_iff)
  have x: "0 < x" unfolding x_def using a k by simp
  have "x \<le> of_int a / 1" unfolding x_def
    using a k by (intro divide_left_mono) simp_all
  then have x2: "x < 2 ^ 53" using a by simp
  have q: "q \<le> 0" unfolding q_def by (rule quantum_nonpos[OF x x2])
  have M: "1 \<le> M" by (simp add: M_def)
  have Mr: "(0::rat) < of_int M" using M by simp
  have P: "(2::rat) powi q = 1 / of_int M" unfolding M_def by (rule powi_nonpos[OF q])
  have v: "round_double x = of_int (round_half_even (x * of_int M)) * (1 / of_int M)"
    using round_double_pos[OF x] by (simp add: q_def[symmetric] P)
  have Pmax: "1 / rat_of_int M \<le> max (x / 2 ^ 52) (2 powi (- 1074))"
    using quantum_le[OF x] by (simp only: q_def[symmetric] P)
  have kP: "rat_of_int k * (1 / of_int M) < 2"
  proof (cases "1 / rat_of_int M \<le> x / 2 ^ 52")
    case True
    then have "rat_of_int k * (1 / of_int M) \<le> of_int k * (x / 2 ^ 52)"
      using k by (intro mult_left_mono) simp_all
    also have "\<dots> = of_int a / 2 ^ 52" using k by (simp add: x_def)
    also have "\<dots> < 2" using a by simp
    finally show ?thesis .
  next
    case False
    with Pmax have "1 / rat_of_int M \<le> 2 powi (- 1074)" by simp
    also have "\<dots> \<le> 2 powi (- 53)" by (rule power_int_increasing) simp_all
    finally have h: "1 / rat_of_int M \<le> 2 powi (- 53)" .
    have "0 \<le> 1 / rat_of_int M" using Mr by simp
    with h k have "rat_of_int k * (1 / of_int M) \<le> 2 ^ 53 * 2 powi (- 53)"
      by (intro mult_mono) simp_all
    also have "\<dots> < 2" by simp
    finally show ?thesis .
  qed
  show ?thesis
  proof
    assume "b * k \<le> a"
    then have "rat_of_int (b * k) \<le> of_int a" by (simp only: of_int_le_iff)
    then have "rat_of_int b * of_int k \<le> of_int a" by simp
    then have "rat_of_int b \<le> x" unfolding x_def using k by (simp add: pos_le_divide_eq)
    then have "rat_of_int b * of_int M \<le> x * of_int M"
      using Mr by (intro mult_right_mono) simp_all
    then have "rat_of_int (b * M) \<le> x * of_int M" by simp
    then have "b * M \<le> round_half_even (x * of_int M)" by (rule round_half_even_ge)
    then have "rat_of_int (b * M) \<le> of_int (round_half_even (x * of_int M))"
      by (simp only: of_int_le_iff)
    then have "rat_of_int (b * M) * (1 / of_int M)
        \<le> of_int (round_half_even (x * of_int M)) * (1 / of_int M)"
      using Mr by (intro mult_right_mono) simp_all
    then show "of_int b \<le> round_double (of_int a / of_int k)"
      using Mr by (simp add: v x_def[symmetric])
  next
    assume le: "of_int b \<le> round_double (of_int a / of_int k)"
    show "b * k \<le> a"
    proof (rule ccontr)
      assume "\<not> b * k \<le> a"
      then have "a + 1 \<le> b * k" by simp
      then have "rat_of_int (a + 1) \<le> of_int (b * k)" by (simp only: of_int_le_iff)
      then have "rat_of_int a + 1 \<le> of_int b * of_int k" by simp
      then have "(rat_of_int a + 1) / of_int k \<le> of_int b"
        using k by (simp add: pos_divide_le_eq)
      then have xb: "x + 1 / of_int k \<le> of_int b"
        by (simp add: x_def add_divide_distrib)
      have "1 / 2 < rat_of_int M / of_int k"
        using kP k Mr by (simp add: field_simps)
      moreover have "(x + 1 / of_int k) * of_int M \<le> rat_of_int b * of_int M"
        using xb Mr by (intro mult_right_mono) simp_all
      moreover have "(x + 1 / of_int k) * of_int M = x * of_int M + rat_of_int M / of_int k"
        by (simp add: distrib_right)
      moreover have "rat_of_int (b * M) = rat_of_int b * of_int M" by simp
      ultimately have "x * of_int M < rat_of_int (b * M) - 1 / 2"
        by linarith
      then have "round_half_even (x * of_int M) < b * M" by (rule round_half_even_less)
      then have "round_half_even (x * of_int M) \<le> b * M - 1" by simp
      then have "rat_of_int (round_half_even (x * of_int M)) \<le> of_int (b * M - 1)"
        by (simp only: of_int_le_iff)
      then have "rat_of_int (round_half_even (x * of_int M)) * (1 / of_int M)
          \<le> of_int (b * M - 1) * (1 / of_int M)"
        using Mr by (intro mult_right_mono) simp_all
      also have "\<dots> = of_int b - 1 / of_int M" using Mr by (simp add: field_simps)
      also have "\<dots> < of_int b" using Mr by simp
      finally show False using le by (simp add: v x_def[symmetric])
    qed
  qed
qed

lemma round_double_eval:
  assumes "2 powi e \<le> \<bar>x\<bar>" and "\<bar>x\<bar> < 2 powi (e + 1)" and "- 1022 \<le> e"
    and "\<bar>x / 2 powi (e - 52) - of_int m\<bar> < 1 / 2"
  shows "round_double x = of_int m * 2 powi (e - 52)"
proof -
  have pos: "0 < \<bar>x\<bar>" using assms(1) zero_less_power_int[of "2::rat" e] by linarith
  then have nz: "x \<noteq> 0" by simp
  have e: "ilog2 \<bar>x\<bar> = e" using assms(1,2) by (rule ilog2_unique)
  have q: "max (ilog2 \<bar>x\<bar> - 52) (- 1074) = e - 52" using assms(3) by (simp add: e)
  have "round_half_even (x / 2 powi (e - 52)) = m" using assms(4) by (rule round_half_even_unique)
  then show ?thesis using nz by (simp add: round_double_def Let_def q)
qed

subsection \<open>Rate profile\<close>

lemma decimation_loop_returns:
  assumes "0 < b" and "b \<le> a" and "a < 2 ^ 53" and "1 \<le> d" and "b * d \<le> a"
  shows "decimation_loop a b d = Some (Inr (a div b))"
  using assms(4,5)
proof (induction "nat (a div b - d)" arbitrary: d rule: less_induct)
  case less
  have a: "0 < a" using assms(1,2) by simp
  have "d * 1 \<le> d * b" using less.prems(1) assms(1) by (intro mult_left_mono) simp_all
  then have "d \<le> a" using less.prems(2) by (simp add: mult.commute)
  then have d: "0 < d + 1" "d + 1 \<le> 2 ^ 53" using less.prems(1) assms(3) by simp_all
  have tv: "int_truediv a (d + 1) = Inr (round_double (of_int a / of_int (d + 1)))"
    using a assms(3) d(1) by (rule int_truediv_value)
  have iff: "of_int b \<le> round_double (of_int a / of_int (d + 1)) \<longleftrightarrow> b * (d + 1) \<le> a"
    using a assms(3) d by (rule truediv_ge_iff)
  show ?case
  proof (cases "b * (d + 1) \<le> a")
    case True
    have "(d + 1) * b div b \<le> a div b"
      using True assms(1) by (intro zdiv_mono1) (simp_all add: mult.commute)
    then have "d + 1 \<le> a div b" using assms(1) by simp
    then have "nat (a div b - (d + 1)) < nat (a div b - d)" by linarith
    from less.hyps[OF this _ True]
    have "decimation_loop a b (d + 1) = Some (Inr (a div b))" using less.prems(1) by simp
    then show ?thesis using True iff tv by (subst decimation_loop.simps) simp
  next
    case False
    have "a div b = d"
      by (rule int_div_pos_eq[where r = "a - b * d"])
         (use False less.prems(2) assms(1) in \<open>simp_all add: algebra_simps\<close>)
    then show ?thesis using False iff tv by (subst decimation_loop.simps) simp
  qed
qed

lemma div_largest:
  assumes "0 < b" and "b \<le> a"
  shows "1 \<le> a div b"
    and "rat_of_int b \<le> of_int a / of_int (a div b)"
    and "rat_of_int a / of_int (a div b + 1) < of_int b"
    and "1 \<le> k \<Longrightarrow> rat_of_int b \<le> of_int a / of_int k \<Longrightarrow> k \<le> a div b"
proof -
  have "b div b \<le> a div b" using assms by (intro zdiv_mono1)
  then show d: "1 \<le> a div b" using assms(1) by simp
  have eq: "b * (a div b) + a mod b = a" by (rule mult_div_mod_eq)
  have m: "0 \<le> a mod b" "a mod b < b" using assms(1) by simp_all
  have "b * (a div b) \<le> a" using eq m by linarith
  then have "rat_of_int (b * (a div b)) \<le> of_int a" by (simp only: of_int_le_iff)
  then have "rat_of_int b * of_int (a div b) \<le> of_int a" by simp
  moreover have "(0::rat) < of_int (a div b)" using d by simp
  ultimately show "rat_of_int b \<le> of_int a / of_int (a div b)" by (simp add: pos_le_divide_eq)
  have "b * (a div b + 1) = b * (a div b) + b" by (simp add: algebra_simps)
  then have "a < b * (a div b + 1)" using eq m by linarith
  then have "rat_of_int a < of_int (b * (a div b + 1))" by (simp only: of_int_less_iff)
  then have "rat_of_int a < of_int b * of_int (a div b + 1)" by simp
  moreover have "(0::rat) < of_int (a div b + 1)" using d by simp
  ultimately show "rat_of_int a / of_int (a div b + 1) < of_int b" by (simp add: pos_divide_less_eq)
  assume k: "1 \<le> k" and le: "rat_of_int b \<le> of_int a / of_int k"
  have "(0::rat) < of_int k" using k by simp
  with le have "rat_of_int b * of_int k \<le> of_int a" by (simp add: pos_le_divide_eq)
  then have "rat_of_int (k * b) \<le> of_int a" by (simp add: mult.commute)
  then have "k * b \<le> a" by (simp only: of_int_le_iff)
  then have "k * b div b \<le> a div b" using assms(1) by (intro zdiv_mono1)
  then show "k \<le> a div b" using assms(1) by simp
qed

lemma get_decimation_value:
  assumes "0 < b" and "b \<le> a" and "a < 2 ^ 53"
  shows "get_decimation a b = Some (Inr (a div b,
           round_double (round_double (of_int a / of_int (a div b)) / of_int b),
           round_double (of_int a / of_int (a div b))))"
proof -
  have a: "0 < a" using assms(1,2) by simp
  have d: "1 \<le> a div b" using assms(1,2) by (rule div_largest(1))
  have loop: "decimation_loop a b 1 = Some (Inr (a div b))"
    using assms by (intro decimation_loop_returns) simp_all
  have tv: "int_truediv a (a div b) = Inr (round_double (of_int a / of_int (a div b)))"
    using a assms(3) by (rule int_truediv_value) (use d in simp)
  have "b < 2 ^ 53" using assms(2,3) by simp
  then have "round_double (of_int b) = of_int b" using assms(1) by (intro round_double_int)
  moreover have "\<bar>rat_of_int b\<bar> < 2 ^ 1024"
  proof -
    have "rat_of_int b < of_int (2 ^ 53)" using \<open>b < 2 ^ 53\<close> by (simp only: of_int_less_iff)
    also have "\<dots> \<le> 2 ^ 1024" by simp
    finally show ?thesis using assms(1) by simp
  qed
  ultimately have fl: "int_to_float b = Inr (of_int b)"
    by (simp add: int_to_float_def Let_def)
  show ?thesis using assms(1) by (simp add: get_decimation_def loop tv fl Let_def)
qed

lemma rd_example_1: "round_double (125000 / 11) = 3123612578909091 / 274877906944"
  using round_double_eval[of 13 "125000 / 11" 6247225157818182] by simp

lemma rd_example_2:
  "round_double (1041204192969697 / 1010176308019200) = 4641929114997419 / 4503599627370496"
  using round_double_eval[of 0 "1041204192969697 / 1010176308019200" 4641929114997419] by simp

text \<open>
  C1, for rates that a double holds exactly. For integer rates with
  \<open>0 < output \<le> input < 2 ^ 53\<close>, \<open>get_decimation\<close> returns; the decimation \<open>d\<close> it
  returns satisfies \<open>input/d \<ge> output\<close> and \<open>input/(d+1) < output\<close> as exact quotients, it
  is the largest integer with the first property, the intermediate rate is the double
  nearest to \<open>input/d\<close> and the fractional ratio is the double nearest to that rate
  divided by the output rate. For 250000 and 11025 the decimation is 22 and the ratio is
  within 0.0001 of 1.0307.
\<close>

theorem get_decimation_largest:
  "(0 < out_rate \<and> out_rate \<le> input_rate \<and> input_rate < 2 ^ 53 \<longrightarrow>
      (\<exists>d. get_decimation input_rate out_rate =
              Some (Inr (d, round_double (round_double (of_int input_rate / of_int d)
                                            / of_int out_rate),
                         round_double (of_int input_rate / of_int d)))
           \<and> 1 \<le> d
           \<and> rat_of_int out_rate \<le> of_int input_rate / of_int d
           \<and> rat_of_int input_rate / of_int (d + 1) < of_int out_rate
           \<and> (\<forall>k\<ge>1. rat_of_int out_rate \<le> of_int input_rate / of_int k \<longrightarrow> k \<le> d)))
   \<and> (\<exists>f. get_decimation 250000 11025 = Some (Inr (22, f, round_double (250000 / 22)))
           \<and> \<bar>f - 10307 / 10000\<bar> < 1 / 10000)"
proof (intro conjI impI)
  assume h: "0 < out_rate \<and> out_rate \<le> input_rate \<and> input_rate < 2 ^ 53"
  then have pos: "0 < out_rate" and ge: "out_rate \<le> input_rate" and lt: "input_rate < 2 ^ 53"
    by auto
  show "\<exists>d. get_decimation input_rate out_rate =
              Some (Inr (d, round_double (round_double (of_int input_rate / of_int d)
                                            / of_int out_rate),
                         round_double (of_int input_rate / of_int d)))
           \<and> 1 \<le> d
           \<and> rat_of_int out_rate \<le> of_int input_rate / of_int d
           \<and> rat_of_int input_rate / of_int (d + 1) < of_int out_rate
           \<and> (\<forall>k\<ge>1. rat_of_int out_rate \<le> of_int input_rate / of_int k \<longrightarrow> k \<le> d)"
    using get_decimation_value[OF pos ge lt] div_largest[OF pos ge] by blast
next
  have "get_decimation 250000 11025 = Some (Inr (22, 4641929114997419 / 4503599627370496,
      round_double (250000 / 22)))"
    using get_decimation_value[of 11025 250000] by (simp add: rd_example_1 rd_example_2)
  then show "\<exists>f. get_decimation 250000 11025 = Some (Inr (22, f, round_double (250000 / 22)))
           \<and> \<bar>f - 10307 / 10000\<bar> < 1 / 10000"
    by (intro exI[of _ "4641929114997419 / 4503599627370496"]) simp
qed

theorem get_decimation_largest_witness:
  "0 < (12000::int) \<and> (12000::int) \<le> 48000 \<and> (48000::int) < 2 ^ 53 \<and>
   (\<exists>d. get_decimation 48000 12000 =
              Some (Inr (d, round_double (round_double (of_int 48000 / of_int d) / of_int 12000),
                         round_double (of_int 48000 / of_int d)))
        \<and> 1 \<le> d \<and> rat_of_int 12000 \<le> of_int 48000 / of_int d
        \<and> rat_of_int 48000 / of_int (d + 1) < of_int 12000
        \<and> (\<forall>k\<ge>1. rat_of_int 12000 \<le> of_int 48000 / of_int k \<longrightarrow> k \<le> d))"
proof -
  have h: "0 < (12000::int) \<and> (12000::int) \<le> 48000 \<and> (48000::int) < 2 ^ 53" by simp
  from get_decimation_largest[of 12000 48000] h show ?thesis by blast
qed

lemma rd_cx_2: "round_double (299999999999999999 / 2) = 150000000000000000"
  using round_double_eval[of 57 "299999999999999999 / 2" 4687500000000000] by simp

lemma rd_cx_3: "round_double (299999999999999999 / 3) = 100000000000000000"
  using round_double_eval[of 56 "299999999999999999 / 3" 6250000000000000] by simp

lemma rd_cx_4: "round_double (299999999999999999 / 4) = 75000000000000000"
  using round_double_eval[of 56 "299999999999999999 / 4" 4687500000000000] by simp

lemma rd_cx_out: "round_double 100000000000000000 = 100000000000000000"
  using round_double_eval[of 56 "100000000000000000" 6250000000000000] by simp

lemma rd_one: "round_double 1 = 1"
  using round_double_eval[of 0 1 4503599627370496] by simp

text \<open>
  C1 as stated, for every pair of positive rates, fails on the code: the loop compares
  the rounded quotient. For the rates 299999999999999999 and 100000000000000000 the
  quotient \<open>input/3\<close> is below the output rate and rounds to it, so the loop goes on
  to the decimation 3, for which \<open>input/d \<ge> output\<close> does not hold.
\<close>

theorem get_decimation_float_counterexample:
  "get_decimation 299999999999999999 100000000000000000
     = Some (Inr (3, 1, 100000000000000000))
   \<and> \<not> (100000000000000000 \<le> (299999999999999999 / 3 :: rat))"
proof -
  have l3: "decimation_loop 299999999999999999 100000000000000000 3 = Some (Inr 3)"
    by (subst decimation_loop.simps) (simp add: int_truediv_def rd_cx_4)
  have l2: "decimation_loop 299999999999999999 100000000000000000 2 = Some (Inr 3)"
    by (subst decimation_loop.simps) (simp add: int_truediv_def rd_cx_3 l3)
  have l1: "decimation_loop 299999999999999999 100000000000000000 1 = Some (Inr 3)"
    by (subst decimation_loop.simps) (simp add: int_truediv_def rd_cx_2 l2)
  show ?thesis
    by (simp add: get_decimation_def l1 int_truediv_def int_to_float_def rd_cx_3 rd_cx_out rd_one)
qed

subsection \<open>Audio rate\<close>

text \<open>
  C2. \<open>get_audio_rate\<close> is 48000 when the primary demodulator is one of dmr, dstar,
  nxdn, ysf; otherwise 12000 when the secondary demodulator is one of ft8, wspr, jt65,
  jt9, ft4; otherwise the configured output rate.
\<close>

theorem get_audio_rate_cases:
  "get_audio_rate self =
     (if demodulator self \<in> {''dmr'', ''dstar'', ''nxdn'', ''ysf''} then 48000
      else if secondary_demodulator self \<in> Some ` {''ft8'', ''wspr'', ''jt65'', ''jt9'', ''ft4''}
      then 12000
      else output_rate self)"
  by (cases "secondary_demodulator self")
     (auto simp: get_audio_rate_def isDigitalVoice_def isWsjtMode_def get_demodulator_def
        get_secondary_demodulator_def get_output_rate_def)

theorem get_audio_rate_cases_witness:
  "get_audio_rate (init ''1''\<lparr>demodulator := ''dmr''\<rparr>) = 48000 \<and>
   get_audio_rate (init ''1''\<lparr>demodulator := ''ssb'', secondary_demodulator := Some ''ft8''\<rparr>) = 12000 \<and>
   get_audio_rate (init ''1'') = 11025"
  using get_audio_rate_cases[of "init ''1''\<lparr>demodulator := ''dmr''\<rparr>"]
    get_audio_rate_cases[of "init ''1''\<lparr>demodulator := ''ssb'', secondary_demodulator := Some ''ft8''\<rparr>"]
    get_audio_rate_cases[of "init ''1''"]
  by (simp add: init_def)

subsection \<open>Squelch\<close>

text \<open>
  C5. With the chain running (the lock free and the squelch control file open),
  \<open>set_squelch_level s\<close> returns, stores \<open>s\<close> in \<open>squelch_level\<close> and appends one line
  to the squelch control file: the value 0 when the primary demodulator is a digital
  voice kind, the value \<open>s\<close> otherwise. Nothing else changes.
\<close>

theorem set_squelch_level_writes:
  assumes "running self" and "\<not> modification_lock self" and "squelch_pipe_file self = Some f"
  shows "set_squelch_level level self =
           Some (Inr (self\<lparr>squelch_level := level,
                           squelch_pipe_file := Some (f @
                             [PercentG (if demodulator self \<in> {''dmr'', ''dstar'', ''nxdn'', ''ysf''}
                                        then 0 else level)])\<rparr>))"
  using assms
  by (simp add: set_squelch_level_def isDigitalVoice_def get_demodulator_def Let_def)

theorem set_squelch_level_writes_witness:
  "set_squelch_level 7 (init ''1''\<lparr>demodulator := ''dmr'', running := True, squelch_pipe_file := Some []\<rparr>)
     = Some (Inr (init ''1''\<lparr>demodulator := ''dmr'', running := True, squelch_pipe_file := Some [],
                    squelch_level := 7, squelch_pipe_file := Some [PercentG 0]\<rparr>))
   \<and> set_squelch_level 7 (init ''1''\<lparr>running := True, squelch_pipe_file := Some []\<rparr>)
     = Some (Inr (init ''1''\<lparr>running := True, squelch_pipe_file := Some [],
                    squelch_level := 7, squelch_pipe_file := Some [PercentG 7]\<rparr>))"
  using set_squelch_level_writes[of "init ''1''\<lparr>demodulator := ''dmr'', running := True, squelch_pipe_file := Some []\<rparr>" "[]" 7]
    set_squelch_level_writes[of "init ''1''\<lparr>running := True, squelch_pipe_file := Some []\<rparr>" "[]" 7]
  by (simp add: init_def)

subsection \<open>The fractional decimator stage\<close>

text \<open>
  C6. For the primary kinds nfm, am, ssb, dmr, dstar, nxdn and ysf, once a rate profile
  exists, \<open>chain\<close> returns a stage list, and the fractional decimator stage is in it
  exactly when the fractional ratio \<open>last_decimation\<close> is not 1.
\<close>

theorem chain_fractional_stage:
  assumes "which \<in> {''nfm'', ''am'', ''ssb'', ''dmr'', ''dstar'', ''nxdn'', ''ysf''}"
      and "last_decimation self = Some ld"
  shows "\<exists>stages. chain self which = Inr stages \<and>
           (''csdr fractional_decimator_ff {last_decimation}'' \<in> set stages \<longleftrightarrow> ld \<noteq> 1)"
  using assms
  by (auto simp: chain_def Let_def isDigitalVoice_def)

theorem chain_fractional_stage_witness:
  "(\<exists>stages. chain (init ''1''\<lparr>last_decimation := Some (5000 / 4851)\<rparr>) ''nfm'' = Inr stages \<and>
      ''csdr fractional_decimator_ff {last_decimation}'' \<in> set stages) \<and>
   (\<exists>stages. chain (init ''1''\<lparr>last_decimation := Some 1\<rparr>) ''dmr'' = Inr stages \<and>
      ''csdr fractional_decimator_ff {last_decimation}'' \<notin> set stages)"
  using chain_fractional_stage[of "''nfm''" "init ''1''\<lparr>last_decimation := Some (5000 / 4851)\<rparr>" "5000 / 4851"]
    chain_fractional_stage[of "''dmr''" "init ''1''\<lparr>last_decimation := Some 1\<rparr>" 1]
  by simp

text \<open>The \<open>fft\<close> chain returns before the block is built and never has the stage.\<close>

lemma chain_fft_no_fractional_stage:
  "\<exists>stages. chain self ''fft'' = Inr stages \<and>
      ''csdr fractional_decimator_ff {last_decimation}'' \<notin> set stages"
  by (auto simp: chain_def Let_def)

subsection \<open>Setting the demodulator that is already set\<close>

text \<open>
  C10. \<open>set_demodulator\<close> called with the kind that is already the primary demodulator
  returns the state as it was: no field changes, and the call history gains neither a
  calculation of the decimation nor a restart. The same holds for
  \<open>set_secondary_demodulator\<close> and the secondary kind.
\<close>

theorem set_demodulator_same_noop:
  "set_demodulator (demodulator self) self = Some (Inr self) \<and>
   set_secondary_demodulator (secondary_demodulator self) self = Some (Inr self)"
  by (simp add: set_demodulator_def set_secondary_demodulator_def get_secondary_demodulator_def)

theorem set_demodulator_same_noop_witness:
  "set_demodulator ''nfm'' (init ''1'') = Some (Inr (init ''1'')) \<and>
   set_secondary_demodulator None (init ''1'') = Some (Inr (init ''1''))"
  using set_demodulator_same_noop[of "init ''1''"]
  by (simp add: init_def)

text \<open>For contrast: with another kind the call history grows by the calculation of the
  decimation and the restart.\<close>

lemma calculate_decimation_calls:
  "calculate_decimation self = Some (Inr s') \<Longrightarrow> calls s' = calls self @ [CalculateDecimation]"
  by (auto simp: calculate_decimation_def Let_def split: option.splits sum.splits prod.splits)

lemma set_squelch_level_calls:
  "set_squelch_level v self = Some (Inr s') \<Longrightarrow> calls s' = calls self"
  by (auto simp: set_squelch_level_def Let_def split: if_splits option.splits)

lemma stop_calls: "stop self = Some (Inr s') \<Longrightarrow> calls s' = calls self @ [Stop]"
  by (auto simp: stop_def Let_def split: if_splits option.splits prod.splits)

lemma start_calls: "start self = Some (Inr s') \<Longrightarrow> calls s' = calls self @ [Start]"
  by (auto simp: start_def Let_def split: if_splits option.splits sum.splits
      dest!: set_squelch_level_calls)

lemma restart_calls:
  "restart self = Some (Inr s') \<Longrightarrow>
     calls s' = calls self @ (if running self then [Restart, Stop, Start] else [Restart])"
  by (auto simp: restart_def Let_def andthen_def split: if_splits option.splits sum.splits
      dest!: stop_calls start_calls)

lemma set_demodulator_other_kind:
  assumes "demodulator self \<noteq> dem" and "set_demodulator dem self = Some (Inr s')"
  shows "calls s' = calls self @ CalculateDecimation #
           (if running self then [Restart, Stop, Start] else [Restart])"
proof -
  from assms obtain s1 where 1: "calculate_decimation (self\<lparr>demodulator := dem\<rparr>) = Some (Inr s1)"
    and 2: "restart s1 = Some (Inr s')"
    by (auto simp: set_demodulator_def andthen_def split: option.splits sum.splits)
  have "running s1 = running self"
    using 1 by (auto simp: calculate_decimation_def Let_def split: option.splits sum.splits prod.splits)
  then show ?thesis
    using calculate_decimation_calls[OF 1] restart_calls[OF 2] by simp
qed

subsection \<open>Rotation times\<close>

lemma div_bound:
  assumes "0 < (b::int)" and "x < k * b"
  shows "x div b < k"
proof -
  have "x div b * b + x mod b = x" by simp
  moreover have "0 \<le> x mod b" using assms(1) by simp
  ultimately have "x div b * b \<le> x" by linarith
  with assms(2) have "x div b * b < k * b" by linarith
  then show ?thesis using assms(1) by (simp add: mult_less_cancel_right)
qed

lemma nat_less_int: "0 < k \<Longrightarrow> (x::int) < int k \<Longrightarrow> nat x < k"
  by linarith

lemma mod_split: "(b::int) dvd a \<Longrightarrow> n mod a = ((n mod a) div b) * b + n mod b"
  by (metis div_mult_mod_eq mod_mod_cancel)

lemma from_us_fields_nonneg:
  fixes n :: int
  shows "0 \<le> (n mod 86400000000) div 3600000000" "0 \<le> (n mod 3600000000) div 60000000"
    "0 \<le> (n mod 60000000) div 1000000" "0 \<le> n mod 1000000"
  by (simp_all add: pos_imp_zdiv_nonneg_iff)

lemma to_us_from_us: "to_us (from_us n) = n"
proof -
  have 1: "n = (n div 86400000000) * 86400000000 + n mod 86400000000" by simp
  have 2: "n mod 86400000000 = ((n mod 86400000000) div 3600000000) * 3600000000 + n mod 3600000000"
    by (rule mod_split) simp
  have 3: "n mod 3600000000 = ((n mod 3600000000) div 60000000) * 60000000 + n mod 60000000"
    by (rule mod_split) simp
  have 4: "n mod 60000000 = ((n mod 60000000) div 1000000) * 1000000 + n mod 1000000"
    by (rule mod_split) simp
  have "to_us (from_us n) = (n div 86400000000) * 86400000000
          + ((n mod 86400000000) div 3600000000) * 3600000000
          + ((n mod 3600000000) div 60000000) * 60000000
          + ((n mod 60000000) div 1000000) * 1000000 + n mod 1000000"
    unfolding to_us_def from_us_def datetime.simps int_nat_eq
    using from_us_fields_nonneg[of n] by (simp only: if_True)
  also have "\<dots> = n" using 1 2 3 4 by linarith
  finally show ?thesis .
qed

lemma valid_from_us: "valid_datetime (from_us n)"
proof -
  have a: "nat ((n mod 86400000000) div 3600000000) < 24"
    by (rule nat_less_int, simp, rule div_bound) simp_all
  have b: "nat ((n mod 3600000000) div 60000000) < 60"
    by (rule nat_less_int, simp, rule div_bound) simp_all
  have c: "nat ((n mod 60000000) div 1000000) < 60"
    by (rule nat_less_int, simp, rule div_bound) simp_all
  have d: "nat (n mod 1000000) < 1000000"
    by (rule nat_less_int) simp_all
  show ?thesis
    unfolding valid_datetime_def from_us_def datetime.simps
    using a b c d by (intro conjI)
qed

lemma round_half_even_of_int: "round_half_even (of_int n) = n"
  by (simp add: round_half_even_def)

lemma from_us_to_us:
  assumes "valid_datetime d"
  shows "from_us (to_us d) = d"
proof -
  let ?D = "ordinal d" and ?h = "int (hour d)" and ?m = "int (minute d)"
    and ?s = "int (second d)" and ?u = "int (microsecond d)"
  let ?n = "to_us d"
  have bounds: "?h < 24" "?m < 60" "?s < 60" "?u < 1000000" "0 \<le> ?h" "0 \<le> ?m" "0 \<le> ?s" "0 \<le> ?u"
    using assms by (simp_all add: valid_datetime_def)
  have n: "?n = ?D * 86400000000 + ?h * 3600000000 + ?m * 60000000 + ?s * 1000000 + ?u"
    by (simp add: to_us_def)
  have d1: "?n div 86400000000 = ?D"
    by (rule int_div_pos_eq[where r = "?h * 3600000000 + ?m * 60000000 + ?s * 1000000 + ?u"])
       (use n bounds in linarith)+
  have m1: "?n mod 86400000000 = ?h * 3600000000 + ?m * 60000000 + ?s * 1000000 + ?u"
    by (rule int_mod_pos_eq[where q = "?D"]) (use n bounds in linarith)+
  have d2: "(?n mod 86400000000) div 3600000000 = ?h"
    unfolding m1
    by (rule int_div_pos_eq[where r = "?m * 60000000 + ?s * 1000000 + ?u"])
       (use bounds in linarith)+
  have m2: "?n mod 3600000000 = ?m * 60000000 + ?s * 1000000 + ?u"
    by (rule int_mod_pos_eq[where q = "?D * 24 + ?h"])
       (use n bounds in \<open>simp_all add: algebra_simps\<close>)
  have d3: "(?n mod 3600000000) div 60000000 = ?m"
    unfolding m2
    by (rule int_div_pos_eq[where r = "?s * 1000000 + ?u"]) (use bounds in linarith)+
  have m3: "?n mod 60000000 = ?s * 1000000 + ?u"
    by (rule int_mod_pos_eq[where q = "?D * 1440 + ?h * 60 + ?m"])
       (use n bounds in \<open>simp_all add: algebra_simps\<close>)
  have d4: "(?n mod 60000000) div 1000000 = ?s"
    unfolding m3
    by (rule int_div_pos_eq[where r = "?u"]) (use bounds in linarith)+
  have m4: "?n mod 1000000 = ?u"
    by (rule int_mod_pos_eq[where q = "?D * 86400 + ?h * 3600 + ?m * 60 + ?s"])
       (use n bounds in \<open>simp_all add: algebra_simps\<close>)
  show ?thesis
    unfolding from_us_def d1 d2 d3 d4 m4 by simp
qed

lemma top_of_hour_delta:
  "datetime_sub now (now\<lparr>minute := 0, second := 0, microsecond := 0\<rparr>)
     = int (minute now) * 60000000 + int (second now) * 1000000 + int (microsecond now)"
  by (simp add: datetime_sub_def to_us_def)

lemma next_multiple:
  fixes delta M :: int
  assumes "0 < M"
  shows "delta < (delta div M + 1) * M"
    and "delta < j * M \<Longrightarrow> (delta div M + 1) * M \<le> j * M"
proof -
  have eq: "delta = delta div M * M + delta mod M" by simp
  have lt: "delta mod M < M" using assms by simp
  have ge: "0 \<le> delta mod M" using assms by simp
  have "(delta div M + 1) * M = delta div M * M + M" by (simp add: algebra_simps)
  then show "delta < (delta div M + 1) * M"
    using eq lt by linarith
  assume "delta < j * M"
  with eq ge have "delta div M * M < j * M" by linarith
  then have "delta div M < j" using assms by (simp add: mult_less_cancel_right)
  then have "delta div M + 1 \<le> j" by simp
  then show "(delta div M + 1) * M \<le> j * M"
    using assms by (simp add: mult_le_cancel_right)
qed

lemma getNextDecodingTime_value:
  assumes pos: "0 < interval self" and whole: "interval self * 1000000 = of_int M"
  shows "getNextDecodingTime timestamp now self =
           Inr (timestamp (from_us (to_us (now\<lparr>minute := 0, second := 0, microsecond := 0\<rparr>)
                  + (datetime_sub now (now\<lparr>minute := 0, second := 0, microsecond := 0\<rparr>) div M + 1) * M)))"
proof -
  let ?top = "now\<lparr>minute := 0, second := 0, microsecond := 0\<rparr>"
  let ?delta = "datetime_sub now ?top"
  have Mpos: "0 < M"
  proof -
    have "(0::rat) < of_int M" using pos whole[symmetric] by simp
    then show ?thesis by simp
  qed
  have dnn: "0 \<le> ?delta" by (simp add: top_of_hour_delta)
  have I: "interval self = of_int M / 1000000" using whole by (simp add: field_simps)
  have q: "total_seconds ?delta / interval self = of_int ?delta / of_int M"
    using Mpos by (simp add: total_seconds_def I)
  have qnn: "(0::rat) \<le> of_int ?delta / of_int M"
    using dnn Mpos by simp
  have fl: "py_int (total_seconds ?delta / interval self) = ?delta div M"
    unfolding q py_int_def using qnn by (simp add: floor_divide_of_int_eq)
  have "of_int (?delta div M + 1) * interval self * 1000000 = (of_int ((?delta div M + 1) * M) :: rat)"
    using whole by (simp add: algebra_simps)
  then have td: "timedelta_seconds (of_int (?delta div M + 1) * interval self) = (?delta div M + 1) * M"
    unfolding timedelta_seconds_def by (simp only: round_half_even_of_int)
  show ?thesis
    unfolding getNextDecodingTime_def Let_def datetime_add_def fl td
    using pos by simp
qed

lemma getNextDecodingTime_general:
  assumes pos: "0 < interval self" and whole: "interval self * 1000000 \<in> \<int>"
  shows "\<exists>t'. getNextDecodingTime timestamp now self = Inr (timestamp t') \<and> valid_datetime t' \<and>
           (let zeroed = now\<lparr>minute := 0, second := 0, microsecond := 0\<rparr>
            in to_us now < to_us t' \<and>
               (\<exists>k::int. total_seconds (datetime_sub t' zeroed) = of_int k * interval self) \<and>
               (\<forall>j::int. total_seconds (datetime_sub now zeroed) < of_int j * interval self \<longrightarrow>
                     total_seconds (datetime_sub t' zeroed) \<le> of_int j * interval self))"
proof -
  let ?top = "now\<lparr>minute := 0, second := 0, microsecond := 0\<rparr>"
  let ?delta = "datetime_sub now ?top"
  from whole obtain M :: int where M: "interval self * 1000000 = of_int M"
    by (auto elim: Ints_cases)
  have Mpos: "0 < M"
  proof -
    have "(0::rat) < of_int M" using pos M[symmetric] by simp
    then show ?thesis by simp
  qed
  have I: "interval self = of_int M / 1000000" using M by (simp add: field_simps)
  let ?q = "?delta div M"
  let ?t = "from_us (to_us ?top + (?q + 1) * M)"
  have val: "getNextDecodingTime timestamp now self = Inr (timestamp ?t)"
    by (rule getNextDecodingTime_value[OF pos M])
  have us: "to_us ?t = to_us ?top + (?q + 1) * M" by (rule to_us_from_us)
  have sub: "datetime_sub ?t ?top = (?q + 1) * M"
    using us by (simp add: datetime_sub_def)
  have now: "to_us now = to_us ?top + ?delta" by (simp add: datetime_sub_def)
  have after: "to_us now < to_us ?t"
    unfolding us now using next_multiple(1)[OF Mpos, of ?delta] by simp
  have mult: "total_seconds (datetime_sub ?t ?top) = of_int (?q + 1) * interval self"
    unfolding sub total_seconds_def I by simp
  have least: "total_seconds (datetime_sub ?t ?top) \<le> of_int j * interval self"
    if lt: "total_seconds ?delta < of_int j * interval self" for j :: int
  proof -
    from lt have "(of_int ?delta :: rat) < of_int (j * M)"
      unfolding total_seconds_def I by (simp add: field_simps)
    then have "?delta < j * M" by (simp only: of_int_less_iff)
    then have "(?q + 1) * M \<le> j * M" by (rule next_multiple(2)[OF Mpos])
    then have "(of_int ((?q + 1) * M) :: rat) \<le> of_int (j * M)" by (simp only: of_int_le_iff)
    then show ?thesis unfolding sub total_seconds_def I by (simp add: field_simps)
  qed
  show ?thesis
    unfolding Let_def
    using val valid_from_us[of "to_us ?top + (?q + 1) * M"] after mult least by blast
qed

lemma getNextDecodingTime_ft8:
  assumes "h < 24" and "m < 60" and "u < 1000000"
  shows "getNextDecodingTime timestamp
           \<lparr>ordinal = D, hour = h, minute = m, second = 7, microsecond = u\<rparr> (Ft8Chopper f)
         = Inr (timestamp \<lparr>ordinal = D, hour = h, minute = m, second = 15, microsecond = 0\<rparr>)"
proof -
  let ?now = "\<lparr>ordinal = D, hour = h, minute = m, second = 7, microsecond = u\<rparr>"
  let ?top = "?now\<lparr>minute := 0, second := 0, microsecond := 0\<rparr>"
  let ?res = "\<lparr>ordinal = D, hour = h, minute = m, second = 15, microsecond = 0\<rparr>"
  have I: "0 < interval (Ft8Chopper f)" "interval (Ft8Chopper f) * 1000000 = of_int 15000000"
    by (simp_all add: Ft8Chopper_def)
  have delta: "datetime_sub ?now ?top = int m * 60000000 + 7000000 + int u"
    by (simp add: datetime_sub_def to_us_def)
  have q: "datetime_sub ?now ?top div 15000000 = 4 * int m"
    unfolding delta
    by (rule int_div_pos_eq[where r = "7000000 + int u"]) (use assms in simp_all)
  have "to_us ?top + (4 * int m + 1) * 15000000 = to_us ?res"
    by (simp add: to_us_def algebra_simps)
  moreover have "valid_datetime ?res" using assms by (simp add: valid_datetime_def)
  ultimately have "from_us (to_us ?top + (4 * int m + 1) * 15000000) = ?res"
    by (simp only: from_us_to_us)
  then show ?thesis
    using getNextDecodingTime_value[OF I, of timestamp ?now] unfolding q by simp
qed

text \<open>
  C7. For a positive interval that is a whole number of microseconds (all five choppers:
  15, 120, 60, 60 and 7.5 seconds), \<open>getNextDecodingTime\<close> returns the timestamp of a
  time \<open>t'\<close> that is strictly after \<open>now\<close>, lies a whole multiple of the interval after
  the top of the current hour, and is the earliest such time. With the 15 second
  interval and a clock reading HH:MM:07 the result is HH:MM:15 of the same minute, not
  HH:MM:22.
\<close>

theorem getNextDecodingTime_aligned:
  "(0 < interval self \<and> interval self * 1000000 \<in> \<int> \<longrightarrow>
     (\<exists>t'. getNextDecodingTime timestamp now self = Inr (timestamp t') \<and> valid_datetime t' \<and>
           (let zeroed = now\<lparr>minute := 0, second := 0, microsecond := 0\<rparr>
            in to_us now < to_us t' \<and>
               (\<exists>k::int. total_seconds (datetime_sub t' zeroed) = of_int k * interval self) \<and>
               (\<forall>j::int. total_seconds (datetime_sub now zeroed) < of_int j * interval self \<longrightarrow>
                     total_seconds (datetime_sub t' zeroed) \<le> of_int j * interval self))))
   \<and> (h < 24 \<and> m < 60 \<and> u < 1000000 \<longrightarrow>
        getNextDecodingTime timestamp
           \<lparr>ordinal = D, hour = h, minute = m, second = 7, microsecond = u\<rparr> (Ft8Chopper f)
         = Inr (timestamp \<lparr>ordinal = D, hour = h, minute = m, second = 15, microsecond = 0\<rparr>))"
  using getNextDecodingTime_general[of self timestamp now]
    getNextDecodingTime_ft8[of h m u timestamp D f]
  by blast

theorem getNextDecodingTime_aligned_witness:
  "getNextDecodingTime utc_timestamp
      \<lparr>ordinal = 737000, hour = 12, minute = 34, second = 7, microsecond = 250000\<rparr>
      (Ft8Chopper ''a.wav'')
    = Inr (utc_timestamp \<lparr>ordinal = 737000, hour = 12, minute = 34, second = 15, microsecond = 0\<rparr>)
   \<and> (\<exists>t'. getNextDecodingTime utc_timestamp
              \<lparr>ordinal = 737000, hour = 12, minute = 34, second = 7, microsecond = 250000\<rparr>
              (Ft8Chopper ''a.wav'') = Inr (utc_timestamp t') \<and> valid_datetime t')"
proof -
  have h1: "(12::nat) < 24 \<and> (34::nat) < 60 \<and> (250000::nat) < 1000000" by simp
  have h2: "0 < interval (Ft8Chopper ''a.wav'') \<and> interval (Ft8Chopper ''a.wav'') * 1000000 \<in> \<int>"
    by (simp add: Ft8Chopper_def)
  from getNextDecodingTime_aligned[of "Ft8Chopper ''a.wav''" utc_timestamp
      "\<lparr>ordinal = 737000, hour = 12, minute = 34, second = 7, microsecond = 250000\<rparr>"
      12 34 250000 737000 "''a.wav''"] h1 h2
  show ?thesis by blast
qed

subsection \<open>Dispatch order\<close>

lemma decode_pops_last:
  "fileQueue c = q @ [f] \<Longrightarrow> decode c = c\<lparr>fileQueue := q, dispatched := dispatched c @ [f]\<rparr>"
  by (simp add: decode_def Let_def)

lemma switchFiles_returns:
  assumes "interval c \<noteq> 0"
  shows "\<exists>t. switchFiles ts now name c =
           Inr (c\<lparr>wavefilename := name, fileQueue := fileQueue c @ [wavefilename c],
                  scheduled := scheduled c @ [t]\<rparr>)"
proof -
  from assms obtain t where "getNextDecodingTime ts now
      (c\<lparr>wavefilename := name, fileQueue := fileQueue c @ [wavefilename c]\<rparr>) = Inr t"
    by (simp add: getNextDecodingTime_def Let_def)
  then have "switchFiles ts now name c =
           Inr (c\<lparr>wavefilename := name, fileQueue := fileQueue c @ [wavefilename c],
                  scheduled := scheduled c @ [t]\<rparr>)"
    by (simp add: switchFiles_def scheduleNextSwitch_def Let_def)
  then show ?thesis by (rule exI)
qed

lemma run_append:
  "run ts (es @ es') c = (case run ts es c of Inl e \<Rightarrow> Inl e | Inr c' \<Rightarrow> run ts es' c')"
  by (induction ts es c rule: run.induct) (auto split: sum.splits)

lemma run_decodes:
  "length q' = n \<Longrightarrow> fileQueue c = q @ q' \<Longrightarrow>
   \<exists>c'. run ts (replicate n Decode) c = Inr c' \<and> fileQueue c' = q \<and>
        dispatched c' = dispatched c @ rev q' \<and> interval c' = interval c \<and>
        wavefilename c' = wavefilename c"
proof (induction n arbitrary: c q')
  case 0
  then show ?case by simp
next
  case (Suc n)
  then obtain q'' f where q': "q' = q'' @ [f]" "length q'' = n"
    by (metis length_Suc_conv_rev)
  with Suc.prems have "fileQueue c = (q @ q'') @ [f]" by simp
  then have d: "decode c = c\<lparr>fileQueue := q @ q'', dispatched := dispatched c @ [f]\<rparr>"
    by (rule decode_pops_last)
  from Suc.IH[of q'' "decode c"] q'(2) d
  obtain c' where "run ts (replicate n Decode) (decode c) = Inr c'" "fileQueue c' = q"
    "dispatched c' = (dispatched c @ [f]) @ rev q''" "interval c' = interval c"
    "wavefilename c' = wavefilename c"
    by auto
  then show ?case using q'(1) by simp
qed

lemma run_switches:
  "interval c \<noteq> 0 \<Longrightarrow>
   \<exists>c'. run ts (map (\<lambda>(now, name). SwitchFiles now name) sw) c = Inr c' \<and>
        fileQueue c' = fileQueue c @ take (length sw) (wavefilename c # map snd sw) \<and>
        dispatched c' = dispatched c \<and> interval c' = interval c"
proof (induction sw arbitrary: c)
  case Nil
  then show ?case by simp
next
  case (Cons p sw)
  obtain now name where p: "p = (now, name)" by (cases p)
  from switchFiles_returns[OF Cons.prems, of ts now name]
  obtain t where sf: "switchFiles ts now name c =
     Inr (c\<lparr>wavefilename := name, fileQueue := fileQueue c @ [wavefilename c],
              scheduled := scheduled c @ [t]\<rparr>)" by blast
  let ?c1 = "c\<lparr>wavefilename := name, fileQueue := fileQueue c @ [wavefilename c],
              scheduled := scheduled c @ [t]\<rparr>"
  have "interval ?c1 \<noteq> 0" using Cons.prems by simp
  from Cons.IH[OF this]
  obtain c' where "run ts (map (\<lambda>(now, name). SwitchFiles now name) sw) ?c1 = Inr c'"
    "fileQueue c' = fileQueue ?c1 @ take (length sw) (wavefilename ?c1 # map snd sw)"
    "dispatched c' = dispatched ?c1" "interval c' = interval ?c1"
    by blast
  then show ?case using sf p by simp
qed

lemma run_alternating:
  "interval c \<noteq> 0 \<Longrightarrow> fileQueue c = [] \<Longrightarrow>
   \<exists>c'. run ts (concat (map (\<lambda>(now, name). [SwitchFiles now name, Decode]) sw)) c = Inr c' \<and>
        fileQueue c' = [] \<and>
        dispatched c' = dispatched c @ take (length sw) (wavefilename c # map snd sw) \<and>
        interval c' = interval c"
proof (induction sw arbitrary: c)
  case Nil
  then show ?case by simp
next
  case (Cons p sw)
  obtain now name where p: "p = (now, name)" by (cases p)
  from switchFiles_returns[OF Cons.prems(1), of ts now name]
  obtain t where sf: "switchFiles ts now name c =
     Inr (c\<lparr>wavefilename := name, fileQueue := fileQueue c @ [wavefilename c],
              scheduled := scheduled c @ [t]\<rparr>)" by blast
  let ?c1 = "c\<lparr>wavefilename := name, fileQueue := fileQueue c @ [wavefilename c],
              scheduled := scheduled c @ [t]\<rparr>"
  have "fileQueue ?c1 = [] @ [wavefilename c]" using Cons.prems(2) by simp
  then have d: "decode ?c1 = ?c1\<lparr>fileQueue := [], dispatched := dispatched ?c1 @ [wavefilename c]\<rparr>"
    by (rule decode_pops_last)
  let ?c2 = "?c1\<lparr>fileQueue := [], dispatched := dispatched ?c1 @ [wavefilename c]\<rparr>"
  have "interval ?c2 \<noteq> 0" "fileQueue ?c2 = []" using Cons.prems by simp_all
  from Cons.IH[OF this]
  obtain c' where
    "run ts (concat (map (\<lambda>(now, name). [SwitchFiles now name, Decode]) sw)) ?c2 = Inr c'"
    "fileQueue c' = []"
    "dispatched c' = dispatched ?c2 @ take (length sw) (wavefilename ?c2 # map snd sw)"
    "interval c' = interval ?c2"
    by blast
  then show ?case using sf p d by simp
qed

text \<open>
  C3, as the code has it. \<open>decode\<close> hands the most recently sealed pending window to
  a decoder. Windows sealed without a \<open>decode\<close> call in between are dispatched by the
  following \<open>decode\<close> calls in reverse rotation order; dispatch follows rotation order
  when every sealed window is dispatched before the next one is sealed.
\<close>

theorem decode_dispatches_latest_first:
  assumes "interval c \<noteq> 0"
  shows "(\<exists>c'. run ts (map (\<lambda>(now, name). SwitchFiles now name) sw @ replicate (length sw) Decode) c
                = Inr c' \<and>
              fileQueue c' = fileQueue c \<and>
              dispatched c' = dispatched c @ rev (take (length sw) (wavefilename c # map snd sw)))
       \<and> (fileQueue c = [] \<longrightarrow>
           (\<exists>c'. run ts (concat (map (\<lambda>(now, name). [SwitchFiles now name, Decode]) sw)) c = Inr c' \<and>
              fileQueue c' = [] \<and>
              dispatched c' = dispatched c @ take (length sw) (wavefilename c # map snd sw)))"
proof (intro conjI impI)
  let ?sealed = "take (length sw) (wavefilename c # map snd sw)"
  from run_switches[OF assms, of ts sw]
  obtain c1 where c1: "run ts (map (\<lambda>(now, name). SwitchFiles now name) sw) c = Inr c1"
    "fileQueue c1 = fileQueue c @ ?sealed" "dispatched c1 = dispatched c"
    by blast
  have len: "length ?sealed = length sw" by simp
  from run_decodes[OF len c1(2), of ts]
  obtain c' where "run ts (replicate (length sw) Decode) c1 = Inr c'" "fileQueue c' = fileQueue c"
    "dispatched c' = dispatched c1 @ rev ?sealed"
    by blast
  then show "\<exists>c'. run ts (map (\<lambda>(now, name). SwitchFiles now name) sw @ replicate (length sw) Decode) c
                = Inr c' \<and>
              fileQueue c' = fileQueue c \<and>
              dispatched c' = dispatched c @ rev ?sealed"
    using c1 by (simp add: run_append)
next
  assume "fileQueue c = []"
  from run_alternating[OF assms this, of ts sw]
  show "\<exists>c'. run ts (concat (map (\<lambda>(now, name). [SwitchFiles now name, Decode]) sw)) c = Inr c' \<and>
              fileQueue c' = [] \<and>
              dispatched c' = dispatched c @ take (length sw) (wavefilename c # map snd sw)"
    by blast
qed

theorem decode_dispatches_latest_first_witness:
  "(\<exists>c'. run utc_timestamp
       [SwitchFiles \<lparr>ordinal = 737000, hour = 12, minute = 0, second = 15, microsecond = 0\<rparr> ''w1.wav'',
        SwitchFiles \<lparr>ordinal = 737000, hour = 12, minute = 0, second = 30, microsecond = 0\<rparr> ''w2.wav'',
        Decode, Decode] (Ft8Chopper ''w0.wav'') = Inr c' \<and>
      dispatched c' = [''w1.wav'', ''w0.wav''])
   \<and> (\<exists>c'. run utc_timestamp
       [SwitchFiles \<lparr>ordinal = 737000, hour = 12, minute = 0, second = 15, microsecond = 0\<rparr> ''w1.wav'',
        Decode,
        SwitchFiles \<lparr>ordinal = 737000, hour = 12, minute = 0, second = 30, microsecond = 0\<rparr> ''w2.wav'',
        Decode] (Ft8Chopper ''w0.wav'') = Inr c' \<and>
      dispatched c' = [''w0.wav'', ''w1.wav''])"
proof -
  have h: "interval (Ft8Chopper ''w0.wav'') \<noteq> 0" "fileQueue (Ft8Chopper ''w0.wav'') = []"
    by (simp_all add: Ft8Chopper_def)
  from decode_dispatches_latest_first[OF h(1), of utc_timestamp
      "[(\<lparr>ordinal = 737000, hour = 12, minute = 0, second = 15, microsecond = 0\<rparr>, ''w1.wav''),
        (\<lparr>ordinal = 737000, hour = 12, minute = 0, second = 30, microsecond = 0\<rparr>, ''w2.wav'')]"] h(2)
  show ?thesis
    by (simp add: Ft8Chopper_def) blast
qed

text \<open>
  C3, as stated, fails: two windows are sealed at 12:00:15 and 12:00:30 before the
  chopper thread calls \<open>decode\<close>; the window sealed second is dispatched first.
\<close>

theorem dispatch_order_counterexample:
  "map_sum id dispatched
     (run utc_timestamp
        [SwitchFiles \<lparr>ordinal = 737000, hour = 12, minute = 0, second = 15, microsecond = 0\<rparr> ''w1.wav'',
         SwitchFiles \<lparr>ordinal = 737000, hour = 12, minute = 0, second = 30, microsecond = 0\<rparr> ''w2.wav'',
         Decode, Decode]
        (Ft8Chopper ''w0.wav''))
   = Inr [''w1.wav'', ''w0.wav'']"
  by (simp add: switchFiles_def scheduleNextSwitch_def getNextDecodingTime_def Let_def
      Ft8Chopper_def decode_def)

subsection \<open>Parsing decoder lines\<close>

lemma py_int_of_int: "py_int (of_int n) = n"
  by (simp add: py_int_def)

lemma utc_timestamp_ms:
  "utc_timestamp \<lparr>ordinal = today, hour = h, minute = m, second = s, microsecond = 0\<rparr> * 1000
     = of_int ((today - 719163) * 86400000 + (int h * 3600 + int m * 60 + int s) * 1000)"
proof -
  let ?d = "\<lparr>ordinal = today, hour = h, minute = m, second = s, microsecond = 0\<rparr>"
  let ?X = "(today - 719163) * 86400000 + (int h * 3600 + int m * 60 + int s) * 1000"
  have "to_us ?d - 719163 * 86400000000 = 1000 * ?X"
    by (simp add: to_us_def algebra_simps)
  then have "utc_timestamp ?d = of_int (1000 * ?X) / 1000000"
    by (simp only: utc_timestamp_def)
  then show ?thesis by simp
qed

lemma timestamp_ms:
  "py_int (utc_timestamp \<lparr>ordinal = today, hour = h, minute = m, second = s, microsecond = 0\<rparr>
           * 1000)
     = (today - 719163) * 86400000 + (int h * 3600 + int m * 60 + int s) * 1000"
  by (simp only: utc_timestamp_ms py_int_of_int)

lemma parse_timestamp_sample:
  "parse_timestamp today ''222100'' ''%H%M%S'' = Inr ((today - 719163) * 86400000 + 80460000)"
proof -
  have "strptime ''222100'' ''%H%M%S''
          = Inr \<lparr>ordinal = 693596, hour = 22, minute = 21, second = 0, microsecond = 0\<rparr>"
    by (simp add: strptime_def two_digits_def one_digit_def is_digit_def digit_value_def field_def)
  then show ?thesis
    by (simp add: parse_timestamp_def combine_def timestamp_ms)
qed

lemma locator_sample: "re_match locator_pattern ''CQ EA7MJ IM66'' = Some [''EA7MJ'', ''IM66'']"
  by (simp add: re_match_def locator_pattern_def re_dot_def py_isspace_def re_A_Z0_9_def
      re_A_R_def is_digit_def upt_rec)

lemma db_sample: "float_of_str ''-15'' = Inr (Finite (- 15))"
proof -
  have "round_double (- 15) = - 15"
    using round_double_eval[of 3 "- 15" "- 8444249301319680"] by simp
  then show ?thesis
    by (simp add: float_of_str_def c_strip_def c_isspace_def split_sign_def
      lower_def decimal_def digitpart_def is_digit_def digit_value_def digits_value_def
      exponent_def)
qed

lemma dt_sample: "float_of_str ''-0.0'' = Inr (Finite 0)"
  by (simp add: float_of_str_def c_strip_def c_isspace_def split_sign_def round_double_def
      lower_def decimal_def digitpart_def is_digit_def digit_value_def digits_value_def exponent_def)

lemma freq_sample: "int_of_str '' 508'' = Inr 508"
  by (simp add: int_of_str_def c_strip_def c_isspace_def split_sign_def
      digitpart_def is_digit_def digit_value_def digits_value_def)

text \<open>
  C8. Parsing the line \<^verbatim>\<open>222100 -15 -0.0  508 ~  CQ EA7MJ IM66\<close> returns normally, hands
  one record to the handler with mode FT8, frequency 508, payload \<open>CQ EA7MJ IM66\<close> and
  dB -15, whose timestamp is 22:21:00 of today's date read as UTC, in milliseconds; the
  locator of the payload gives one map update.
\<close>

theorem parse_ft8_sample:
  "parse today ''222100 -15 -0.0  508 ~  CQ EA7MJ IM66'' self =
     Inr (self\<lparr>Map_updates := Map_updates self @
                    [(''EA7MJ'', LocatorLocation ''IM66'', ''FT8'', band self)],
               handler := handler self @
                    [[(''timestamp'', IntV (py_int (utc_timestamp
                          \<lparr>ordinal = today, hour = 22, minute = 21, second = 0, microsecond = 0\<rparr>
                          * 1000))),
                      (''db'', FloatV (Finite (- 15))), (''dt'', FloatV (Finite 0)),
                      (''freq'', IntV 508), (''mode'', StrV ''FT8''),
                      (''msg'', StrV ''CQ EA7MJ IM66'')]]\<rparr>)
   \<and> py_int (utc_timestamp \<lparr>ordinal = today, hour = 22, minute = 21, second = 0, microsecond = 0\<rparr>
              * 1000)
       = (today - 719163) * 86400000 + 80460000"
proof -
  have body: "parse_from_jt9 today ''222100 -15 -0.0  508 ~  CQ EA7MJ IM66'' self =
      Inr ([(''timestamp'', IntV ((today - 719163) * 86400000 + 80460000)),
            (''db'', FloatV (Finite (- 15))), (''dt'', FloatV (Finite 0)),
            (''freq'', IntV 508), (''mode'', StrV ''FT8''), (''msg'', StrV ''CQ EA7MJ IM66'')],
           self\<lparr>Map_updates := Map_updates self @
                    [(''EA7MJ'', LocatorLocation ''IM66'', ''FT8'', band self)]\<rparr>)"
    by (simp add: parse_from_jt9_def index_def modes_def slice_def slice_from_def
        parse_timestamp_sample strip_def lstrip_def rstrip_def py_isspace_def
        parseLocator_def locator_sample updateLocation_def db_sample dt_sample freq_sample
        Let_def)
  have ts: "py_int (utc_timestamp
       \<lparr>ordinal = today, hour = 22, minute = 21, second = 0, microsecond = 0\<rparr> * 1000)
       = (today - 719163) * 86400000 + 80460000"
    by (simp add: timestamp_ms)
  have "parse today ''222100 -15 -0.0  508 ~  CQ EA7MJ IM66'' self =
     Inr (self\<lparr>Map_updates := Map_updates self @
                    [(''EA7MJ'', LocatorLocation ''IM66'', ''FT8'', band self)],
               handler := handler self @
                    [[(''timestamp'', IntV ((today - 719163) * 86400000 + 80460000)),
                      (''db'', FloatV (Finite (- 15))), (''dt'', FloatV (Finite 0)),
                      (''freq'', IntV 508), (''mode'', StrV ''FT8''),
                      (''msg'', StrV ''CQ EA7MJ IM66'')]]\<rparr>)"
    by (simp add: parse_def parse_body_def bytes_decode_def rstrip_def py_isspace_def
        index_def modes_def body)
  then show ?thesis unfolding ts by simp
qed

theorem parse_ft8_sample_witness:
  "parse 737000 ''222100 -15 -0.0  508 ~  CQ EA7MJ IM66'' WsjtParser_init =
     Inr \<lparr>handler = [[(''timestamp'', IntV 1541197260000), (''db'', FloatV (Finite (- 15))),
                       (''dt'', FloatV (Finite 0)), (''freq'', IntV 508),
                       (''mode'', StrV ''FT8''), (''msg'', StrV ''CQ EA7MJ IM66'')]],
          dial_freq = None, band = None,
          Map_updates = [(''EA7MJ'', LocatorLocation ''IM66'', ''FT8'', None)],
          logged = []\<rparr>"
  using parse_ft8_sample[of 737000 WsjtParser_init]
  by (simp add: WsjtParser_init_def)

lemma parse_short_line_raises:
  assumes "list_all (\<lambda>c. \<not> digit7 c) data" and "length (rstrip data) \<le> 21"
    and "\<not> startswith (rstrip data) ''<DecodeFinished>''"
    and "\<not> startswith (rstrip data) '' EOF on input file''"
  shows "parse today data self = Inl (IndexError, self)"
  using assms
  by (simp add: parse_def parse_body_def bytes_decode_def index_def is_ValueError_def Let_def)

text \<open>
  C4 fails on the code: \<open>except ValueError\<close> does not catch the IndexError of
  \<open>msg[21]\<close>. A line that is empty after \<open>rstrip\<close> (or any ASCII line shorter than 22
  characters that is not one of the two skipped messages) makes \<open>parse\<close> raise IndexError
  to its caller; nothing is logged.
\<close>

theorem parse_blank_line_raises:
  "parse today [CHR 0x0A] self = Inl (IndexError, self)"
  by (rule parse_short_line_raises) (simp_all add: rstrip_def py_isspace_def)

subsection \<open>Locators\<close>

lemma first_some_map_None: "(\<And>x. x \<in> set xs \<Longrightarrow> f x = None) \<Longrightarrow> first_some (map f xs) = None"
  by (induction xs) auto

lemma first_some_single: "first_some [x] = x"
  by (cases x) simp_all

lemma first_some_append_None: "first_some xs = None \<Longrightarrow> first_some (xs @ ys) = first_some ys"
  by (induction xs rule: first_some.induct) auto

lemma space_not_callsign: "py_isspace c \<Longrightarrow> \<not> re_A_Z0_9 c"
  by (auto simp: py_isspace_def re_A_Z0_9_def)

lemma A_R_callsign: "re_A_R c \<Longrightarrow> re_A_Z0_9 c"
  by (auto simp: re_A_R_def re_A_Z0_9_def)

lemma digit_callsign: "is_digit c \<Longrightarrow> re_A_Z0_9 c"
  by (auto simp: is_digit_def re_A_Z0_9_def)

lemma rep_unfold:
  "re_match_here (Rep p lo (Some h) # ts) rest opn groups =
     first_some (map (\<lambda>k. re_match_here ts (drop k rest) (map_option (\<lambda>g. g @ take k rest) opn) groups)
                     (rev [lo..<Suc (min (length (takeWhile p rest)) h)]))"
  by (simp only: re_match_here.simps Let_def option.case)

lemma match_one_space:
  "re_match_here (Rep py_isspace 1 (Some 1) # ts) rest opn groups =
     (case rest of
        [] \<Rightarrow> None
      | c # r \<Rightarrow> if py_isspace c
                 then re_match_here ts r (map_option (\<lambda>g. g @ [c]) opn) groups else None)"
proof (cases rest)
  case Nil
  then show ?thesis by simp
next
  case (Cons c r)
  show ?thesis
  proof (cases "py_isspace c")
    case True
    then have "min (length (takeWhile py_isspace rest)) 1 = 1" using Cons by simp
    then show ?thesis using Cons True by (simp add: Let_def first_some_single)
  next
    case False
    then show ?thesis using Cons by simp
  qed
qed

lemma match_two:
  "re_match_here (Rep p 2 (Some 2) # ts) rest opn groups =
     (case rest of
        a # b # r \<Rightarrow> if p a \<and> p b
                     then re_match_here ts r (map_option (\<lambda>g. g @ [a, b]) opn) groups else None
      | _ \<Rightarrow> None)"
proof (cases rest)
  case Nil
  then show ?thesis by simp
next
  case (Cons a r1)
  show ?thesis
  proof (cases r1)
    case Nil
    then show ?thesis using Cons by (simp add: Let_def)
  next
    case (Cons b r)
    show ?thesis
    proof (cases "p a \<and> p b")
      case True
      then have "min (length (takeWhile p rest)) 2 = 2" using \<open>rest = a # r1\<close> Cons by simp
      then show ?thesis using \<open>rest = a # r1\<close> Cons True
        by (simp add: Let_def first_some_single)
    next
      case False
      then have "min (length (takeWhile p rest)) 2 < 2" using \<open>rest = a # r1\<close> Cons by auto
      then have e: "[2..<Suc (min (length (takeWhile p rest)) 2)] = []" by simp
      have lhs: "re_match_here (Rep p 2 (Some 2) # ts) rest opn groups = None"
        unfolding rep_unfold e by simp
      have rhs: "(case rest of
                    a # b # r \<Rightarrow> if p a \<and> p b
                       then re_match_here ts r (map_option (\<lambda>g. g @ [a, b]) opn) groups else None
                  | _ \<Rightarrow> None) = None"
        using \<open>rest = a # r1\<close> Cons False by auto
      show ?thesis by (simp only: lhs rhs)
    qed
  qed
qed

lemma tail_matches:
  assumes "py_isspace w2" "re_A_R a" "re_A_R b" "is_digit c" "is_digit d"
  shows "re_match_here locator_tail (w2 # [a, b, c, d]) None [g1] = Some [g1, [a, b, c, d]]"
  using assms by (simp add: locator_tail_def match_one_space match_two)

lemma tail_needs_space:
  assumes "rest = [] \<or> \<not> py_isspace (hd rest)"
  shows "re_match_here locator_tail rest None groups = None"
  using assms by (cases rest) (auto simp: locator_tail_def match_one_space)

lemma call_unfold:
  "re_match_here locator_call s None [] =
     first_some (map (\<lambda>k. re_match_here locator_tail (drop k s) None [take k s])
                     (rev [1..<Suc (length (takeWhile re_A_Z0_9 s))]))"
  by (simp add: locator_call_def Let_def)

lemma call_matches:
  assumes "py_isspace w2" "re_A_R a" "re_A_R b" "is_digit c" "is_digit d"
    and "call \<noteq> []" "list_all re_A_Z0_9 call"
  shows "re_match_here locator_call (call @ w2 # [a, b, c, d]) None [] = Some [call, [a, b, c, d]]"
proof -
  have tw: "takeWhile re_A_Z0_9 (call @ w2 # [a, b, c, d]) = call"
    using assms(1,7) space_not_callsign[of w2]
    by (simp add: takeWhile_append2 list_all_iff)
  have len: "1 \<le> length call" using assms(6) by (cases call) simp_all
  then have r: "rev [1..<Suc (length call)] = length call # rev [1..<length call]"
    by simp
  show ?thesis
    unfolding call_unfold tw r using tail_matches[OF assms(1-5)] by simp
qed

lemma call_needs_space:
  assumes "\<And>x. x \<in> set s \<Longrightarrow> \<not> py_isspace x"
  shows "re_match_here locator_call s None [] = None"
  unfolding call_unfold
proof (rule first_some_map_None)
  fix k
  have "drop k s = [] \<or> \<not> py_isspace (hd (drop k s))"
  proof (cases "drop k s")
    case Nil then show ?thesis by simp
  next
    case (Cons x xs)
    then have "x \<in> set s" by (metis in_set_dropD list.set_intros(1))
    with assms Cons show ?thesis by simp
  qed
  then show "re_match_here locator_tail (drop k s) None [take k s] = None"
    by (rule tail_needs_space)
qed

lemma locator_pattern_split:
  "locator_pattern = Rep re_dot 0 None # Rep py_isspace 1 (Some 1) # locator_call"
  by (simp add: locator_pattern_def locator_call_def locator_tail_def)

lemma locator_unfold:
  "re_match locator_pattern msg =
     first_some (map (\<lambda>k. re_match_here (Rep py_isspace 1 (Some 1) # locator_call) (drop k msg) None [])
                     (rev [0..<Suc (length (takeWhile re_dot msg))]))"
  by (simp add: re_match_def locator_pattern_split Let_def)

lemma after_space_no_match:
  assumes sp: "py_isspace w2" and loc: "re_A_R a" "re_A_R b" "is_digit c" "is_digit d"
    and call: "list_all re_A_Z0_9 call"
  shows "re_match_here (Rep py_isspace 1 (Some 1) # locator_call)
           (drop j (call @ w2 # [a, b, c, d])) None [] = None"
proof -
  have locns: "\<not> py_isspace x" if "x \<in> set [a, b, c, d]" for x
    using that loc space_not_callsign[of x] A_R_callsign digit_callsign by auto
  have callns: "\<not> py_isspace x" if "x \<in> set call" for x
    using that call space_not_callsign[of x] by (auto simp: list_all_iff)
  consider "j < length call" | "j = length call" | "length call < j" by linarith
  then show ?thesis
  proof cases
    case 1
    then obtain x xs where d: "drop j call = x # xs" by (cases "drop j call") simp_all
    then have "x \<in> set call" by (metis in_set_dropD list.set_intros(1))
    then have "\<not> py_isspace x" by (rule callns)
    moreover have "drop j (call @ w2 # [a, b, c, d]) = x # xs @ w2 # [a, b, c, d]"
      using 1 d by simp
    ultimately show ?thesis by (simp add: match_one_space)
  next
    case 2
    then have "drop j (call @ w2 # [a, b, c, d]) = w2 # [a, b, c, d]" by simp
    moreover have "re_match_here locator_call [a, b, c, d] None [] = None"
      by (rule call_needs_space) (use locns in blast)
    ultimately show ?thesis by (simp add: match_one_space)
  next
    case 3
    then have "j - length call = Suc (j - Suc (length call))" by simp
    then have "drop (j - length call) (w2 # [a, b, c, d]) = drop (j - Suc (length call)) [a, b, c, d]"
      by (simp only: drop_Suc_Cons)
    then have e: "drop j (call @ w2 # [a, b, c, d]) = drop (j - Suc (length call)) [a, b, c, d]"
      using 3 by simp
    show ?thesis
    proof (cases "drop (j - Suc (length call)) [a, b, c, d]")
      case Nil
      then show ?thesis unfolding e by (simp add: match_one_space)
    next
      case (Cons x xs)
      then have "x \<in> set [a, b, c, d]" by (metis in_set_dropD list.set_intros(1))
      then have "\<not> py_isspace x" by (rule locns)
      then show ?thesis unfolding e Cons by (simp add: match_one_space)
    qed
  qed
qed

lemma upt_split: "p \<le> n \<Longrightarrow> [0..<Suc n] = [0..<p] @ p # [Suc p..<Suc n]"
proof -
  assume le: "p \<le> n"
  then have "[0..<Suc n] = [0..<p + (Suc n - p)]" by simp
  also have "\<dots> = [0..<p] @ [p..<p + (Suc n - p)]" by (rule upt_add_eq_append) simp
  also have "[p..<p + (Suc n - p)] = p # [Suc p..<Suc n]" using le by (simp add: upt_conv_Cons)
  finally show ?thesis .
qed

lemma drop_append_length_plus: "drop (length xs + Suc j) (xs @ w # ys) = drop j ys"
  by simp

lemma locator_matches:
  assumes pre: "CHR 0x0A \<notin> set pre" and w1: "py_isspace w1" and w2: "py_isspace w2"
    and call: "call \<noteq> []" "list_all re_A_Z0_9 call"
    and loc: "re_A_R a" "re_A_R b" "is_digit c" "is_digit d"
  shows "re_match locator_pattern (pre @ w1 # call @ w2 # [a, b, c, d]) = Some [call, [a, b, c, d]]"
proof -
  let ?X = "call @ w2 # [a, b, c, d]"
  let ?msg = "pre @ w1 # ?X"
  let ?F = "\<lambda>k. re_match_here (Rep py_isspace 1 (Some 1) # locator_call) (drop k ?msg) None []"
  let ?P = "length pre"
  let ?n = "length (takeWhile re_dot ?msg)"
  have "takeWhile re_dot ?msg = pre @ takeWhile re_dot (w1 # ?X)"
    using pre by (intro takeWhile_append2) (auto simp: re_dot_def)
  then have Pn: "?P \<le> ?n" by simp
  have "[0..<Suc ?n] = [0..<?P] @ ?P # [Suc ?P..<Suc ?n]"
    using Pn by (rule upt_split)
  then have r: "rev [0..<Suc ?n] = rev [Suc ?P..<Suc ?n] @ ?P # rev [0..<?P]" by simp
  have above: "first_some (map ?F (rev [Suc ?P..<Suc ?n])) = None"
  proof (rule first_some_map_None)
    fix k assume "k \<in> set (rev [Suc ?P..<Suc ?n])"
    then have "k \<in> {Suc ?P..<Suc ?n}" by (simp only: set_rev set_upt)
    then have k: "Suc ?P \<le> k" by (simp only: atLeastLessThan_iff)
    then have "k = ?P + Suc (k - Suc ?P)" by simp
    then have "drop k ?msg = drop (?P + Suc (k - Suc ?P)) ?msg" by simp
    also have "\<dots> = drop (k - Suc ?P) ?X" by (simp only: drop_append_length_plus)
    finally have "drop k ?msg = drop (k - Suc ?P) ?X" .
    then show "?F k = None"
      using after_space_no_match[OF w2 loc call(2), of "k - Suc ?P"] by simp
  qed
  have at: "?F ?P = Some [call, [a, b, c, d]]"
    using w1 call_matches[OF w2 loc call] by (simp add: match_one_space)
  have "re_match locator_pattern ?msg = first_some (map ?F (rev [0..<Suc ?n]))"
    by (rule locator_unfold)
  also have "\<dots> = first_some (map ?F (rev [Suc ?P..<Suc ?n]) @ map ?F (?P # rev [0..<?P]))"
    unfolding r by simp
  also have "\<dots> = first_some (map ?F (?P # rev [0..<?P]))"
    by (rule first_some_append_None[OF above])
  also have "\<dots> = Some [call, [a, b, c, d]]"
    using at by simp
  finally show ?thesis .
qed

text \<open>
  C9, for the payloads that \<open>parseLocator\<close> receives, which are those of the lines in
  the format of jt9 (FT8, FT4, JT65, JT9). A payload that ends in a callsign and a
  locator as the locator pattern wants them (any text without newline, whitespace, a
  callsign of capitals and digits, whitespace, two letters A to R and two digits) gives
  no map update when the locator is \<open>RR73\<close> and exactly one update, with that callsign
  and locator, otherwise. For every payload, \<open>parseLocator\<close> either leaves the map alone
  or adds one update whose locator is not \<open>RR73\<close>.
\<close>

theorem parseLocator_updates:
  "(CHR 0x0A \<notin> set pre \<and> py_isspace w1 \<and> py_isspace w2 \<and> call \<noteq> [] \<and> list_all re_A_Z0_9 call \<and>
    re_A_R a \<and> re_A_R b \<and> is_digit c \<and> is_digit d \<longrightarrow>
      parseLocator (pre @ w1 # call @ w2 # [a, b, c, d]) mode self =
        (if [a, b, c, d] = ''RR73'' then self
         else self\<lparr>Map_updates := Map_updates self @
                       [(call, LocatorLocation [a, b, c, d], mode, band self)]\<rparr>))
   \<and> (parseLocator msg mode self = self \<or>
       (\<exists>cs l. l \<noteq> ''RR73'' \<and>
          parseLocator msg mode self =
            self\<lparr>Map_updates := Map_updates self @ [(cs, LocatorLocation l, mode, band self)]\<rparr>))"
proof (intro conjI impI)
  assume "CHR 0x0A \<notin> set pre \<and> py_isspace w1 \<and> py_isspace w2 \<and> call \<noteq> [] \<and>
    list_all re_A_Z0_9 call \<and> re_A_R a \<and> re_A_R b \<and> is_digit c \<and> is_digit d"
  then have "re_match locator_pattern (pre @ w1 # call @ w2 # [a, b, c, d]) = Some [call, [a, b, c, d]]"
    by (intro locator_matches) simp_all
  then show "parseLocator (pre @ w1 # call @ w2 # [a, b, c, d]) mode self =
        (if [a, b, c, d] = ''RR73'' then self
         else self\<lparr>Map_updates := Map_updates self @
                       [(call, LocatorLocation [a, b, c, d], mode, band self)]\<rparr>)"
    by (simp add: parseLocator_def updateLocation_def)
next
  show "parseLocator msg mode self = self \<or>
       (\<exists>cs l. l \<noteq> ''RR73'' \<and>
          parseLocator msg mode self =
            self\<lparr>Map_updates := Map_updates self @ [(cs, LocatorLocation l, mode, band self)]\<rparr>)"
    by (cases "re_match locator_pattern msg") (auto simp: parseLocator_def updateLocation_def)
qed

theorem parseLocator_updates_witness:
  "parseLocator ''CQ EA7MJ IM66'' ''FT8'' WsjtParser_init =
     WsjtParser_init\<lparr>Map_updates := [(''EA7MJ'', LocatorLocation ''IM66'', ''FT8'', None)]\<rparr>
   \<and> parseLocator ''CQ EA7MJ RR73'' ''FT8'' WsjtParser_init = WsjtParser_init"
  using parseLocator_updates[where pre = "''CQ''" and ?w1.0 = "CHR '' ''" and ?w2.0 = "CHR '' ''"
      and call = "''EA7MJ''" and a = "CHR ''I''" and b = "CHR ''M''" and c = "CHR ''6''"
      and d = "CHR ''6''" and mode = "''FT8''" and self = WsjtParser_init and msg = "[]"]
    parseLocator_updates[where pre = "''CQ''" and ?w1.0 = "CHR '' ''" and ?w2.0 = "CHR '' ''"
      and call = "''EA7MJ''" and a = "CHR ''R''" and b = "CHR ''R''" and c = "CHR ''7''"
      and d = "CHR ''3''" and mode = "''FT8''" and self = WsjtParser_init and msg = "[]"]
  by (simp add: py_isspace_def re_A_Z0_9_def re_A_R_def is_digit_def WsjtParser_init_def)

lemma parse_timestamp_wspr:
  "parse_timestamp 737000 ''0052'' ''%H%M'' = Inr 1541119920000"
proof -
  have "strptime ''0052'' ''%H%M''
          = Inr \<lparr>ordinal = 693596, hour = 0, minute = 52, second = 0, microsecond = 0\<rparr>"
    by (simp add: strptime_def two_digits_def one_digit_def is_digit_def digit_value_def field_def)
  then show ?thesis
    by (simp add: parse_timestamp_def combine_def timestamp_ms)
qed

lemma wspr_splitter_sample:
  "re_match wspr_splitter_pattern ''G02CWT RR73 23'' = Some [''G02CWT'', ''RR73'', ''23'']"
  by (simp add: re_match_def wspr_splitter_pattern_def py_isspace_def re_A_Z0_9_def
      re_A_R_def is_digit_def upt_rec)

lemma db_wspr: "float_of_str ''-29'' = Inr (Finite (- 29))"
proof -
  have "round_double (- 29) = - 29"
    using round_double_eval[of 4 "- 29" "- 8162774324609024"] by simp
  then show ?thesis
    by (simp add: float_of_str_def c_strip_def c_isspace_def split_sign_def
      lower_def decimal_def digitpart_def is_digit_def digit_value_def digits_value_def
      exponent_def)
qed

lemma dt_wspr: "float_of_str '' 2.6'' = Inr (Finite (5854679515581645 / 2251799813685248))"
proof -
  have "round_double (13 / 5) = 5854679515581645 / 2251799813685248"
    using round_double_eval[of 1 "13 / 5" 5854679515581645] by simp
  then show ?thesis
    by (simp add: float_of_str_def c_strip_def c_isspace_def split_sign_def
      lower_def decimal_def digitpart_def is_digit_def digit_value_def digits_value_def
      exponent_def)
qed

lemma freq_wspr:
  "float_of_str ''  0.001486'' = Inr (Finite (3426482711691549 / 2305843009213693952))"
proof -
  have "round_double (743 / 500000) = 3426482711691549 / 2305843009213693952"
    using round_double_eval[of "- 10" "743 / 500000" 6852965423383098] by simp
  then show ?thesis
    by (simp add: float_of_str_def c_strip_def c_isspace_def split_sign_def
      lower_def decimal_def digitpart_def is_digit_def digit_value_def digits_value_def
      exponent_def)
qed

lemma drift_wspr: "int_of_str '' 0 '' = Inr 0"
  by (simp add: int_of_str_def c_strip_def c_isspace_def split_sign_def
      digitpart_def is_digit_def digit_value_def digits_value_def)

text \<open>
  C9 as stated, for every parsed payload, fails on the code: the payload of a WSPR line
  goes to \<open>parseWsprMessage\<close>, which has no test for \<open>RR73\<close>. Parsing the WSPR line
  \<^verbatim>\<open>0052 -29  2.6   0.001486  0  G02CWT RR73 23\<close> updates the map with the locator
  \<open>RR73\<close>.
\<close>

theorem wspr_rr73_counterexample:
  "parse 737000 ''0052 -29  2.6   0.001486  0  G02CWT RR73 23'' WsjtParser_init =
     Inr \<lparr>handler = [[(''timestamp'', IntV 1541119920000), (''db'', FloatV (Finite (- 29))),
                       (''dt'', FloatV (Finite (5854679515581645 / 2251799813685248))),
                       (''freq'', FloatV (Finite (3426482711691549 / 2305843009213693952))),
                       (''drift'', IntV 0), (''mode'', StrV ''WSPR''),
                       (''msg'', StrV ''G02CWT RR73 23'')]],
          dial_freq = None, band = None,
          Map_updates = [(''G02CWT'', LocatorLocation ''RR73'', ''WSPR'', None)],
          logged = []\<rparr>"
proof -
  have body: "parse_from_wsprd 737000 ''0052 -29  2.6   0.001486  0  G02CWT RR73 23''
        WsjtParser_init =
      Inr ([(''timestamp'', IntV 1541119920000), (''db'', FloatV (Finite (- 29))),
            (''dt'', FloatV (Finite (5854679515581645 / 2251799813685248))),
            (''freq'', FloatV (Finite (3426482711691549 / 2305843009213693952))),
            (''drift'', IntV 0), (''mode'', StrV ''WSPR''), (''msg'', StrV ''G02CWT RR73 23'')],
           WsjtParser_init\<lparr>Map_updates :=
              [(''G02CWT'', LocatorLocation ''RR73'', ''WSPR'', None)]\<rparr>)"
    by (simp add: parse_from_wsprd_def slice_def slice_from_def
        parse_timestamp_wspr strip_def lstrip_def rstrip_def py_isspace_def
        parseWsprMessage_def wspr_splitter_sample updateLocation_def db_wspr dt_wspr freq_wspr
        drift_wspr Let_def WsjtParser_init_def)
  show ?thesis
    by (simp add: parse_def parse_body_def bytes_decode_def rstrip_def py_isspace_def
        index_def modes_def body) (simp add: WsjtParser_init_def)
qed

end
